theory Spec2Isabelle
  imports Main "HOL-Library.Word" "HOL-Library.Sublist"
begin

section \<open>The scene graph: nodes with a mask, groups with children\<close>

text \<open>
  An \<open>osg::ref_ptr<osg::Node>\<close> is modelled as the identity of the node it refers to.
  The nodes themselves live in a store, so that two items holding the same node see the
  same mask. A reference is never dangling (nodes are reference counted); the null
  reference is not part of the model, every node argument refers to a node.
  \<open>osg::Node::NodeMask\<close> is an \<open>unsigned int\<close>.
\<close>

type_synonym node_id = nat
type_synonym NodeMask = "32 word"

record osg_node =
  nodeMask :: NodeMask
  isGroup :: bool
  children :: "node_id list"

text \<open>
  The store of all nodes and the identity the next \<open>new osg::Group()\<close> gets. A node
  the caller hands in has been made before, so its identity is below \<open>nextNode\<close>.
\<close>

record scene =
  nodes :: "node_id \<Rightarrow> osg_node"
  nextNode :: node_id

definition getNodeMask :: "node_id \<Rightarrow> scene \<Rightarrow> NodeMask" where
  "getNodeMask n sc = nodeMask (nodes sc n)"

definition setNodeMask :: "node_id \<Rightarrow> NodeMask \<Rightarrow> scene \<Rightarrow> scene" where
  "setNodeMask n m sc = sc\<lparr>nodes := (nodes sc)(n := (nodes sc n)\<lparr>nodeMask := m\<rparr>)\<rparr>"

text \<open>\<open>node->asGroup()\<close> is non-null exactly for a group.\<close>

definition asGroup :: "node_id \<Rightarrow> scene \<Rightarrow> bool" where
  "asGroup n sc = isGroup (nodes sc n)"

text \<open>
  \<open>osg::Group::addChild\<close> appends the child; \<open>osg::Group::removeChild\<close> takes out the
  first occurrence of the child and does nothing when it is not there.
\<close>

definition addChild :: "node_id \<Rightarrow> node_id \<Rightarrow> scene \<Rightarrow> scene" where
  "addChild g c sc = sc\<lparr>nodes := (nodes sc)(g := (nodes sc g)\<lparr>children := children (nodes sc g) @ [c]\<rparr>)\<rparr>"

definition removeChild :: "node_id \<Rightarrow> node_id \<Rightarrow> scene \<Rightarrow> scene" where
  "removeChild g c sc = sc\<lparr>nodes := (nodes sc)(g := (nodes sc g)\<lparr>children := remove1 c (children (nodes sc g))\<rparr>)\<rparr>"

text \<open>\<open>new osg::Group()\<close>: a fresh group, all mask bits set, no children.\<close>

definition new_Group :: "scene \<Rightarrow> node_id \<times> scene" where
  "new_Group sc =
     (nextNode sc,
      sc\<lparr>nodes := (nodes sc)(nextNode sc := \<lparr>nodeMask = - 1, isGroup = True, children = []\<rparr>),
         nextNode := Suc (nextNode sc)\<rparr>)"

section \<open>The items of the tree view\<close>

datatype CheckState = Unchecked | PartiallyChecked | Checked

text \<open>
  \<open>d3DisplayItem\<close>: a \<open>QStandardItem\<close> (enabled flag, check state, child rows) with a
  name, a path, a node and the remembered prior node mask. \<open>TreeView.h\<close> declares the
  item without the path that \<open>TreeView.cpp\<close> passes to its constructor; the path is
  kept here as \<open>TreeView.cpp\<close> has it. The click and creation callbacks are the caller's
  code; \<open>DisplayInterface::add\<close> passes none, and they are left out.
\<close>

datatype d3DisplayItem =
  d3DisplayItem (getName: string) (getPath: string) (getNode: node_id) (isEnabled: bool)
    (checkState: CheckState) (getPriorNodeMask: NodeMask) (rows: "d3DisplayItem list")

text \<open>
  The constructor: the prior mask is the node's mask and the item is checked; a new
  \<open>QStandardItem\<close> is enabled.
\<close>

definition new_d3DisplayItem :: "string \<Rightarrow> string \<Rightarrow> node_id \<Rightarrow> scene \<Rightarrow> d3DisplayItem" where
  "new_d3DisplayItem name path node sc =
     d3DisplayItem name path node True Checked (getNodeMask node sc) []"

definition setEnabled :: "bool \<Rightarrow> d3DisplayItem \<Rightarrow> d3DisplayItem" where
  "setEnabled b item = (case item of d3DisplayItem n p nd e c pm rs \<Rightarrow> d3DisplayItem n p nd b c pm rs)"

definition setCheckState :: "CheckState \<Rightarrow> d3DisplayItem \<Rightarrow> d3DisplayItem" where
  "setCheckState c item = (case item of d3DisplayItem n p nd e c' pm rs \<Rightarrow> d3DisplayItem n p nd e c pm rs)"

definition setPriorNodeMask :: "NodeMask \<Rightarrow> d3DisplayItem \<Rightarrow> d3DisplayItem" where
  "setPriorNodeMask m item = (case item of d3DisplayItem n p nd e c pm rs \<Rightarrow> d3DisplayItem n p nd e c m rs)"

definition setNode :: "node_id \<Rightarrow> d3DisplayItem \<Rightarrow> d3DisplayItem" where
  "setNode nd item = (case item of d3DisplayItem n p nd' e c pm rs \<Rightarrow> d3DisplayItem n p nd e c pm rs)"

definition setRows :: "d3DisplayItem list \<Rightarrow> d3DisplayItem \<Rightarrow> d3DisplayItem" where
  "setRows rs item = (case item of d3DisplayItem n p nd e c pm rs' \<Rightarrow> d3DisplayItem n p nd e c pm rs)"

definition appendRow :: "d3DisplayItem \<Rightarrow> d3DisplayItem \<Rightarrow> d3DisplayItem" where
  "appendRow entry item = setRows (rows item @ [entry]) item"

section \<open>TreeView::updateChildren\<close>

text \<open>
  The item is disabled or enabled, then every child is visited in row order when the
  item itself is checked, then the item's own node mask is set. The scene is threaded
  through in the order of the source, so that items sharing a node behave as there.
\<close>

fun updateChildren :: "d3DisplayItem \<Rightarrow> bool \<Rightarrow> scene \<Rightarrow> d3DisplayItem \<times> scene"
  and updateChildren_rows :: "d3DisplayItem list \<Rightarrow> bool \<Rightarrow> scene \<Rightarrow> d3DisplayItem list \<times> scene"
where
  "updateChildren (d3DisplayItem n p nd e c pm rs) checked sc =
     (let (rs', sc1) = (if c = Checked then updateChildren_rows rs checked sc else (rs, sc))
      in if checked \<and> c = Checked then
           (d3DisplayItem n p nd checked c pm rs', setNodeMask nd pm sc1)
         else if c = Checked then
           (d3DisplayItem n p nd checked c (getNodeMask nd sc1) rs', setNodeMask nd 0 sc1)
         else
           (d3DisplayItem n p nd checked c pm rs', setNodeMask nd 0 sc1))"
| "updateChildren_rows [] checked sc = ([], sc)"
| "updateChildren_rows (child # rest) checked sc =
     (let (child', sc1) = updateChildren child checked sc;
          (rest', sc2) = updateChildren_rows rest checked sc1
      in (child' # rest', sc2))"

section \<open>TreeView::clicked\<close>

datatype error = ItemNotRetrieved | NullPointer

text \<open>
  The operations of the tree view are modelled as their caller sees them, one at a time:
  the locks of the model and of the osg widget, taken and released inside each
  operation, are left out.

  What \<open>clicked\<close> does to the item it has found: the mask of the item's node follows the
  check state, then every child row is passed to \<open>updateChildren\<close> with the item's
  check state.
\<close>

definition clicked_item :: "d3DisplayItem \<Rightarrow> scene \<Rightarrow> d3DisplayItem \<times> scene" where
  "clicked_item item sc =
     (let (item1, sc1) =
            (if checkState item = Checked then
               (if isEnabled item then (item, setNodeMask (getNode item) (getPriorNodeMask item) sc)
                else (item, setNodeMask (getNode item) 0 sc))
             else
               (let item1 = (if isEnabled item
                             then setPriorNodeMask (getNodeMask (getNode item) sc) item
                             else item)
                in (item1, setNodeMask (getNode item) 0 sc)));
          (rs', sc2) = updateChildren_rows (rows item1) (checkState item1 = Checked) sc1
      in (setRows rs' item1, sc2))"

text \<open>
  A \<open>QModelIndex\<close> is the list of row numbers leading from the model to the item;
  \<open>itemFromIndex\<close> gives no item for an index that leads nowhere.
\<close>

type_synonym QModelIndex = "nat list"

fun itemFromIndex :: "QModelIndex \<Rightarrow> d3DisplayItem list \<Rightarrow> d3DisplayItem option" where
  "itemFromIndex [] rs = None"
| "itemFromIndex [i] rs = (if i < length rs then Some (rs ! i) else None)"
| "itemFromIndex (i # j # js) rs =
     (if i < length rs then itemFromIndex (j # js) (rows (rs ! i)) else None)"

text \<open>The item at an index replaced: how a change made through the item pointer shows in the model.\<close>

fun putItem :: "QModelIndex \<Rightarrow> d3DisplayItem \<Rightarrow> d3DisplayItem list \<Rightarrow> d3DisplayItem list" where
  "putItem [] item rs = rs"
| "putItem [i] item rs = rs[i := item]"
| "putItem (i # j # js) item rs =
     (if i < length rs then rs[i := setRows (putItem (j # js) item (rows (rs ! i))) (rs ! i)] else rs)"

record QOSGWidget =
  rootGroup :: node_id

record TreeView =
  m_pOsgWidget :: "QOSGWidget option"
  m_pModel :: "d3DisplayItem list"

definition clicked :: "QModelIndex \<Rightarrow> TreeView \<Rightarrow> scene \<Rightarrow> error + (TreeView \<times> scene)" where
  "clicked index tv sc =
     (case m_pOsgWidget tv of
        None \<Rightarrow> Inr (tv, sc)
      | Some w \<Rightarrow>
          (case itemFromIndex index (m_pModel tv) of
             None \<Rightarrow> Inl ItemNotRetrieved
           | Some item \<Rightarrow>
               (let (item', sc') = clicked_item item sc
                in Inr (tv\<lparr>m_pModel := putItem index item' (m_pModel tv)\<rparr>, sc'))))"

section \<open>TreeView::add\<close>

text \<open>
  \<open>std::string::find\<close> from position 0: the position of the first occurrence of the
  pattern, or nothing for \<open>npos\<close>. \<open>substr pos n\<close> is \<open>take n (drop pos s)\<close> for a
  position inside the string, which is the only way it is called here.
\<close>

fun str_find :: "string \<Rightarrow> string \<Rightarrow> nat option" where
  "str_find [] pat = (if pat = [] then Some 0 else None)"
| "str_find (c # cs) pat =
     (if prefix pat (c # cs) then Some 0 else map_option Suc (str_find cs pat))"

definition substr :: "nat \<Rightarrow> nat \<Rightarrow> string \<Rightarrow> string" where
  "substr pos n s = take n (drop pos s)"

definition splitIndicator :: string where
  "splitIndicator = ''::''"

text \<open>
  \<open>findChild\<close> gives the first child row with the name; the row number stands for the
  pointer to that child.
\<close>

fun findChild_from :: "nat \<Rightarrow> d3DisplayItem list \<Rightarrow> string \<Rightarrow> nat option" where
  "findChild_from ii [] name = None"
| "findChild_from ii (ch # rest) name =
     (if getName ch = name then Some ii else findChild_from (Suc ii) rest name)"

definition findChild :: "d3DisplayItem \<Rightarrow> string \<Rightarrow> nat option" where
  "findChild myParent name = findChild_from 0 (rows myParent) name"

text \<open>
  \<open>createNewEntry\<close>. Dereferencing \<open>asGroup()\<close> of a parent whose node is no group is
  the error \<open>NullPointer\<close>. The call \<open>clicked(indexFromItem(entry))\<close> reaches the entry
  just appended, so it is \<open>clicked_item\<close> on that entry (the osg widget is set: the
  private \<open>add\<close> is called by the public one only, which has tested it).
\<close>

definition createNewEntry ::
  "string \<Rightarrow> string \<Rightarrow> node_id \<Rightarrow> bool \<Rightarrow> bool \<Rightarrow> bool \<Rightarrow> d3DisplayItem \<Rightarrow> scene
     \<Rightarrow> error + (bool \<times> d3DisplayItem \<times> scene)" where
  "createNewEntry name path node enableNode showNode addToDisplay myParent sc =
     (let entry = setEnabled enableNode (new_d3DisplayItem name path node sc)
      in if addToDisplay \<and> \<not> asGroup (getNode myParent) sc then Inl NullPointer
         else
           (let sc1 = (if addToDisplay then addChild (getNode myParent) node sc else sc);
                (entry', sc2) = (if \<not> showNode then clicked_item (setCheckState Unchecked entry) sc1
                                 else (entry, sc1))
            in Inr (True, appendRow entry' myParent, sc2)))"

text \<open>\<open>replaceNode\<close>; the entry is the child row \<open>i\<close> of the parent.\<close>

definition replaceNode ::
  "nat \<Rightarrow> node_id \<Rightarrow> bool \<Rightarrow> bool \<Rightarrow> d3DisplayItem \<Rightarrow> scene
     \<Rightarrow> error + (bool \<times> d3DisplayItem \<times> scene)" where
  "replaceNode i node enableNode addToDisplay myParent sc =
     (let entry = rows myParent ! i;
          sc1 = setNodeMask node (getNodeMask (getNode entry) sc) sc
      in if addToDisplay \<and> \<not> asGroup (getNode myParent) sc1 then Inl NullPointer
         else
           (let sc2 = (if addToDisplay then removeChild (getNode myParent) (getNode entry) sc1 else sc1);
                entry' = setEnabled enableNode (setNode node entry);
                sc3 = (if addToDisplay then addChild (getNode myParent) (getNode entry') sc2 else sc2)
            in Inr (True, setRows ((rows myParent)[i := entry']) myParent, sc3)))"

lemma str_find_nonempty: "str_find name splitIndicator = Some k \<Longrightarrow> name \<noteq> []"
  by (cases name) (auto simp: splitIndicator_def)

function add ::
  "string \<Rightarrow> string \<Rightarrow> node_id \<Rightarrow> bool \<Rightarrow> bool \<Rightarrow> bool \<Rightarrow> d3DisplayItem \<Rightarrow> scene
     \<Rightarrow> error + (bool \<times> d3DisplayItem \<times> scene)"
  and addParent ::
  "string \<Rightarrow> string \<Rightarrow> string \<Rightarrow> node_id \<Rightarrow> bool \<Rightarrow> bool \<Rightarrow> bool \<Rightarrow> d3DisplayItem \<Rightarrow> scene
     \<Rightarrow> error + (bool \<times> d3DisplayItem \<times> scene)"
where
  "add name path node enableNode showNode addToDisplay myParent sc =
     (case str_find name splitIndicator of
        Some nameSplit \<Rightarrow>
          addParent (substr 0 nameSplit name)
                    (substr (nameSplit + length splitIndicator) (length name) name)
                    path node enableNode showNode addToDisplay myParent sc
      | None \<Rightarrow>
          (case findChild myParent name of
             None \<Rightarrow> createNewEntry name path node enableNode showNode addToDisplay myParent sc
           | Some i \<Rightarrow> replaceNode i node enableNode addToDisplay myParent sc))"
| "addParent parentName childName path node enableNode showNode addToDisplay myParent sc =
     (case (case findChild myParent parentName of
              Some i \<Rightarrow> Inr (i, myParent, sc)
            | None \<Rightarrow>
                (if \<not> asGroup (getNode myParent) sc then Inl NullPointer
                 else
                   (let (g, sc1) = new_Group sc;
                        entry = setEnabled True (new_d3DisplayItem parentName path g sc1);
                        sc2 = addChild (getNode myParent) (getNode entry) sc1
                    in Inr (length (rows myParent), appendRow entry myParent, sc2)))) of
        Inl e \<Rightarrow> Inl e
      | Inr (i, myParent1, sc2) \<Rightarrow>
          (if asGroup (getNode (rows myParent1 ! i)) sc2 then
             (case add childName path node enableNode showNode addToDisplay (rows myParent1 ! i) sc2 of
                Inl e \<Rightarrow> Inl e
              | Inr (rv, entry', sc3) \<Rightarrow>
                  Inr (rv, setRows ((rows myParent1)[i := entry']) myParent1, sc3))
           else Inr (False, myParent1, sc2)))"
  by pat_completeness auto
termination
proof (relation "measure (\<lambda>x. case x of
          Inl (name, path, node, enableNode, showNode, addToDisplay, myParent, sc) \<Rightarrow> 2 * length name
        | Inr (parentName, childName, path, node, enableNode, showNode, addToDisplay, myParent, sc) \<Rightarrow>
            2 * length childName + 1)", goal_cases)
  case 1
  show ?case by simp
next
  case (2 name path node enableNode showNode addToDisplay myParent sc nameSplit)
  then have "name \<noteq> []" by (rule str_find_nonempty)
  then show ?case by (cases name) (simp_all add: substr_def splitIndicator_def)
next
  case 3
  then show ?case by simp
qed

declare add.simps [simp del] addParent.simps [simp del]

text \<open>The public \<open>add\<close>: nothing without a widget, else the add below the first row of the model.\<close>

definition TreeView_add ::
  "string \<Rightarrow> node_id \<Rightarrow> bool \<Rightarrow> bool \<Rightarrow> TreeView \<Rightarrow> scene \<Rightarrow> error + (bool \<times> TreeView \<times> scene)" where
  "TreeView_add name node showNode addToDisplay tv sc =
     (case m_pOsgWidget tv of
        None \<Rightarrow> Inr (False, tv, sc)
      | Some w \<Rightarrow>
          (case m_pModel tv of
             [] \<Rightarrow> Inl NullPointer
           | myItem # rest \<Rightarrow>
               (case add name name node True showNode addToDisplay myItem sc of
                  Inl e \<Rightarrow> Inl e
                | Inr (rv, myItem', sc') \<Rightarrow> Inr (rv, tv\<lparr>m_pModel := myItem' # rest\<rparr>, sc'))))"

text \<open>The constructor and \<open>setOsgWidget\<close>, which appends the top entry for the root group.\<close>

definition new_TreeView :: TreeView where
  "new_TreeView = \<lparr>m_pOsgWidget = None, m_pModel = []\<rparr>"

definition setOsgWidget :: "QOSGWidget option \<Rightarrow> TreeView \<Rightarrow> scene \<Rightarrow> TreeView" where
  "setOsgWidget widget tv sc =
     (case widget of
        None \<Rightarrow> tv
      | Some w \<Rightarrow>
          tv\<lparr>m_pOsgWidget := Some w,
             m_pModel := m_pModel tv @
               [new_d3DisplayItem ''All Displayed Items'' ''All Displayed Items'' (rootGroup w) sc]\<rparr>)"

section \<open>Notions used to state the properties\<close>

text \<open>
  A name can stand before \<open>::\<close> in a path when the first \<open>::\<close> of \<open>name::rest\<close> is the
  one written after the name: the name holds no \<open>::\<close> and does not end in a colon.
\<close>

definition segment :: "string \<Rightarrow> bool" where
  "segment s \<longleftrightarrow> str_find (s @ '':'') splitIndicator = None"

text \<open>
  A click on the check box of an item: the view stores the new check state in the item and
  emits \<open>clicked(index)\<close>, to which the slot \<open>TreeView::clicked\<close> is connected.
  \<open>createNewEntry\<close> does the same by hand for an entry that is not shown.
\<close>

definition setCheckStateAt :: "QModelIndex \<Rightarrow> CheckState \<Rightarrow> d3DisplayItem list \<Rightarrow> d3DisplayItem list" where
  "setCheckStateAt index cs rs =
     (case itemFromIndex index rs of
        None \<Rightarrow> rs
      | Some item \<Rightarrow> putItem index (setCheckState cs item) rs)"

definition clicked_transition ::
  "QModelIndex \<Rightarrow> CheckState \<Rightarrow> TreeView \<Rightarrow> scene \<Rightarrow> error + (TreeView \<times> scene)" where
  "clicked_transition index cs tv sc =
     clicked index (tv\<lparr>m_pModel := setCheckStateAt index cs (m_pModel tv)\<rparr>) sc"

text \<open>The nodes held by an item and the items below it, in row order.\<close>

fun nodes_of :: "d3DisplayItem \<Rightarrow> node_id list"
  and nodes_of_rows :: "d3DisplayItem list \<Rightarrow> node_id list" where
  "nodes_of (d3DisplayItem n p nd e c pm rs) = nd # nodes_of_rows rs"
| "nodes_of_rows [] = []"
| "nodes_of_rows (r # rs) = nodes_of r @ nodes_of_rows rs"

text \<open>
  The nodes of the items \<open>updateChildren\<close> walks over: the item, and the items of its rows
  when the item is checked.
\<close>

fun touched :: "d3DisplayItem \<Rightarrow> node_id list"
  and touched_rows :: "d3DisplayItem list \<Rightarrow> node_id list" where
  "touched (d3DisplayItem n p nd e c pm rs) = nd # (if c = Checked then touched_rows rs else [])"
| "touched_rows [] = []"
| "touched_rows (r # rs) = touched r @ touched_rows rs"

text \<open>
  All items of a subtree, and the items of a subtree that lie strictly below an item that
  is not checked.
\<close>

fun all_items :: "d3DisplayItem \<Rightarrow> d3DisplayItem list"
  and all_items_rows :: "d3DisplayItem list \<Rightarrow> d3DisplayItem list" where
  "all_items (d3DisplayItem n p nd e c pm rs) = d3DisplayItem n p nd e c pm rs # all_items_rows rs"
| "all_items_rows [] = []"
| "all_items_rows (r # rs) = all_items r @ all_items_rows rs"

fun below_unchecked :: "d3DisplayItem \<Rightarrow> d3DisplayItem list"
  and below_unchecked_rows :: "d3DisplayItem list \<Rightarrow> d3DisplayItem list" where
  "below_unchecked (d3DisplayItem n p nd e c pm rs) =
     (if c = Checked then below_unchecked_rows rs else all_items_rows rs)"
| "below_unchecked_rows [] = []"
| "below_unchecked_rows (r # rs) = below_unchecked r @ below_unchecked_rows rs"

subsection \<open>A small tree view to run the operations on\<close>

text \<open>
  Nodes 0 to 4 have been made: 0 is the root group, 1 and 2 are groups, node 2 is hidden.
  The view shows a parent (node 1) with an unchecked child (node 2, itself with a child
  over node 4) and a checked child (node 3).
\<close>

definition widget0 :: QOSGWidget where
  "widget0 = \<lparr>rootGroup = 0\<rparr>"

definition scene0 :: scene where
  "scene0 =
     \<lparr>nodes = (\<lambda>n. \<lparr>nodeMask = (if n = 2 then 0 else 7), isGroup = (n \<le> 2),
                     children = (if n = 0 then [1] else if n = 1 then [2, 3] else if n = 2 then [4] else [])\<rparr>),
      nextNode = 5\<rparr>"

definition family_C1 :: d3DisplayItem where
  "family_C1 = d3DisplayItem ''C1'' ''P::C1'' 2 True Unchecked 7
                 [d3DisplayItem ''G'' ''P::C1::G'' 4 True Checked 7 []]"

definition family_C2 :: d3DisplayItem where
  "family_C2 = d3DisplayItem ''C2'' ''P::C2'' 3 True Checked 7 []"

definition family_P :: d3DisplayItem where
  "family_P = d3DisplayItem ''P'' ''P::C1'' 1 True Checked 7 [family_C1, family_C2]"

definition familyView :: TreeView where
  "familyView =
     \<lparr>m_pOsgWidget = Some widget0,
      m_pModel = [d3DisplayItem ''All Displayed Items'' ''All Displayed Items'' 0 True Checked 7 [family_P]]\<rparr>"

text \<open>A scene with a root group and two nodes of the caller, and the empty view over it.\<close>

definition scene1 :: scene where
  "scene1 = \<lparr>nodes = (\<lambda>n. \<lparr>nodeMask = 7, isGroup = (n = 0), children = []\<rparr>), nextNode = 3\<rparr>"

definition treeView1 :: TreeView where
  "treeView1 = setOsgWidget (Some widget0) new_TreeView scene1"

text \<open>The empty view after the node 1 has been added under \<open>X::Y\<close>.\<close>

definition added_XY :: "error + (bool \<times> TreeView \<times> scene)" where
  "added_XY = TreeView_add ''X::Y'' 1 True True treeView1 scene1"

subsection \<open>Runs of operations on a view\<close>






section \<open>DisplayInterface, as one caller sees it\<close>

text \<open>
  The coordinator: the window, the tree view and the osg widget (null until the display
  thread has made them), the three flags, and the lock of the osg widget. The mutex
  \<open>m_mutex\<close> is taken and released inside each call and is left out here.
\<close>

record MainWindow =
  isVisible :: bool

record DisplayInterface =
  m_pMainWindow :: "MainWindow option"
  m_pTreeView :: "TreeView option"
  m_pOsgWidget_DI :: "QOSGWidget option"
  osgLocked :: bool
  m_haveData :: bool
  m_setupComplete :: bool
  m_threadShouldRun :: bool

text \<open>The constructor's member initialisers.\<close>

definition new_DisplayInterface :: DisplayInterface where
  "new_DisplayInterface =
     \<lparr>m_pMainWindow = None, m_pTreeView = None, m_pOsgWidget_DI = None, osgLocked = False,
      m_haveData = False, m_setupComplete = False, m_threadShouldRun = True\<rparr>"

text \<open>
  \<open>setupMainWindow\<close>. Without a window the caller notifies and waits on the condition
  variable until \<open>m_setupComplete\<close> holds. What the other threads do to the coordinator
  while the caller waits is the parameter \<open>display\<close>: it gives the state in which the
  caller wakes up, or nothing when the caller is never woken. A caller that wakes up and
  does not find \<open>m_setupComplete\<close> waits on, which is nothing as well. A call that does
  not return is the value \<open>None\<close>.
\<close>

definition setupMainWindow ::
  "(DisplayInterface \<Rightarrow> DisplayInterface option) \<Rightarrow> DisplayInterface \<Rightarrow> (bool \<times> DisplayInterface) option" where
  "setupMainWindow display di =
     (if m_pMainWindow di = None then
        (if m_setupComplete di then Some (m_pMainWindow di \<noteq> None, di)
         else
           (case display di of
              None \<Rightarrow> None
            | Some di' \<Rightarrow>
                (if m_setupComplete di' then Some (m_pMainWindow di' \<noteq> None, di') else None)))
      else Some (m_pMainWindow di \<noteq> None, di))"

text \<open>
  What the display thread does between waking up and notifying: nothing while there is no
  data, nothing more when it shall not run (it returns, and setup never completes), else
  it makes the window, the osg widget and the tree view that are still missing and sets
  \<open>m_setupComplete\<close>. The root group of the new widget is a parameter.
\<close>

definition displayThread :: "node_id \<Rightarrow> scene \<Rightarrow> DisplayInterface \<Rightarrow> DisplayInterface option" where
  "displayThread root sc di =
     (if \<not> m_haveData di then None
      else if \<not> m_threadShouldRun di then None
      else
        (let window = (case m_pMainWindow di of None \<Rightarrow> \<lparr>isVisible = True\<rparr> | Some mw \<Rightarrow> mw);
             widget = (case m_pOsgWidget_DI di of None \<Rightarrow> \<lparr>rootGroup = root\<rparr> | Some wd \<Rightarrow> wd);
             view = (case m_pTreeView di of
                       None \<Rightarrow> setOsgWidget (Some widget) new_TreeView sc
                     | Some tv \<Rightarrow> tv)
         in Some (di\<lparr>m_pMainWindow := Some window, m_pOsgWidget_DI := Some widget,
                     m_pTreeView := Some view, m_setupComplete := True\<rparr>)))"

text \<open>
  The public operations. Each result is \<open>None\<close> when the call does not return,
  \<open>Inl\<close> when it fails with an error, \<open>Inr\<close> with the returned bool otherwise.
\<close>

definition DisplayInterface_add ::
  "(DisplayInterface \<Rightarrow> DisplayInterface option) \<Rightarrow> string \<Rightarrow> node_id \<Rightarrow> bool
     \<Rightarrow> DisplayInterface \<Rightarrow> scene \<Rightarrow> (error + (bool \<times> DisplayInterface \<times> scene)) option" where
  "DisplayInterface_add display name node addToDisplay di sc =
     (case setupMainWindow display (di\<lparr>m_haveData := True\<rparr>) of
        None \<Rightarrow> None
      | Some (ok, di1) \<Rightarrow>
          (if \<not> ok then Some (Inr (False, di1\<lparr>m_haveData := False\<rparr>, sc))
           else
             (case m_pTreeView di1 of
                None \<Rightarrow> Some (Inl NullPointer)
              | Some tv \<Rightarrow>
                  (case TreeView_add name node True addToDisplay tv sc of
                     Inl e \<Rightarrow> Some (Inl e)
                   | Inr (rv, tv', sc') \<Rightarrow> Some (Inr (rv, di1\<lparr>m_pTreeView := Some tv'\<rparr>, sc'))))))"

text \<open>
  The three handler overloads end in a call of the osg widget (\<open>addKeyHandler\<close>,
  \<open>addClickHandler\<close>, \<open>addMotionEventHandler\<close>); the widget's answer is the parameter
  \<open>accepted\<close>. The overload for a \<open>char\<close> key calls the one for a key symbol.
\<close>

definition DisplayInterface_add_key ::
  "(DisplayInterface \<Rightarrow> DisplayInterface option) \<Rightarrow> bool \<Rightarrow> DisplayInterface
     \<Rightarrow> (error + (bool \<times> DisplayInterface)) option" where
  "DisplayInterface_add_key display accepted di =
     (case setupMainWindow display (di\<lparr>m_haveData := True\<rparr>) of
        None \<Rightarrow> None
      | Some (ok, di1) \<Rightarrow>
          (if \<not> ok then Some (Inr (False, di1\<lparr>m_haveData := False\<rparr>))
           else
             (case m_pOsgWidget_DI di1 of
                None \<Rightarrow> Some (Inl NullPointer)
              | Some wd \<Rightarrow> Some (Inr (accepted, di1)))))"

definition DisplayInterface_add_char ::
  "(DisplayInterface \<Rightarrow> DisplayInterface option) \<Rightarrow> bool \<Rightarrow> DisplayInterface
     \<Rightarrow> (error + (bool \<times> DisplayInterface)) option" where
  "DisplayInterface_add_char display accepted di = DisplayInterface_add_key display accepted di"

definition DisplayInterface_add_button ::
  "(DisplayInterface \<Rightarrow> DisplayInterface option) \<Rightarrow> bool \<Rightarrow> DisplayInterface
     \<Rightarrow> (error + (bool \<times> DisplayInterface)) option" where
  "DisplayInterface_add_button display accepted di =
     (case setupMainWindow display (di\<lparr>m_haveData := True\<rparr>) of
        None \<Rightarrow> None
      | Some (ok, di1) \<Rightarrow>
          (if \<not> ok then Some (Inr (False, di1\<lparr>m_haveData := False\<rparr>))
           else
             (case m_pOsgWidget_DI di1 of
                None \<Rightarrow> Some (Inl NullPointer)
              | Some wd \<Rightarrow> Some (Inr (accepted, di1)))))"

definition DisplayInterface_add_motion ::
  "(DisplayInterface \<Rightarrow> DisplayInterface option) \<Rightarrow> bool \<Rightarrow> DisplayInterface
     \<Rightarrow> (error + (bool \<times> DisplayInterface)) option" where
  "DisplayInterface_add_motion display accepted di =
     (case setupMainWindow display (di\<lparr>m_haveData := True\<rparr>) of
        None \<Rightarrow> None
      | Some (ok, di1) \<Rightarrow>
          (if \<not> ok then Some (Inr (False, di1\<lparr>m_haveData := False\<rparr>))
           else
             (case m_pOsgWidget_DI di1 of
                None \<Rightarrow> Some (Inl NullPointer)
              | Some wd \<Rightarrow> Some (Inr (accepted, di1)))))"

definition track ::
  "(DisplayInterface \<Rightarrow> DisplayInterface option) \<Rightarrow> DisplayInterface
     \<Rightarrow> (error + (bool \<times> DisplayInterface)) option" where
  "track display di =
     (case setupMainWindow display (di\<lparr>m_haveData := True\<rparr>) of
        None \<Rightarrow> None
      | Some (ok, di1) \<Rightarrow>
          (if \<not> ok then Some (Inr (False, di1\<lparr>m_haveData := False\<rparr>))
           else
             (case m_pOsgWidget_DI di1 of
                None \<Rightarrow> Some (Inl NullPointer)
              | Some wd \<Rightarrow> Some (Inr (True, di1)))))"

text \<open>
  \<open>lock\<close> does not set \<open>m_haveData\<close> before the setup. Locking the osg widget while it
  is locked does not return.
\<close>

definition lock ::
  "(DisplayInterface \<Rightarrow> DisplayInterface option) \<Rightarrow> DisplayInterface
     \<Rightarrow> (error + (bool \<times> DisplayInterface)) option" where
  "lock display di =
     (case setupMainWindow display di of
        None \<Rightarrow> None
      | Some (ok, di1) \<Rightarrow>
          (if \<not> ok then Some (Inr (False, di1\<lparr>m_haveData := False\<rparr>))
           else
             (case m_pOsgWidget_DI di1 of
                None \<Rightarrow> Some (Inl NullPointer)
              | Some wd \<Rightarrow>
                  (if osgLocked di1 then None else Some (Inr (True, di1\<lparr>osgLocked := True\<rparr>))))))"

definition try_lock :: "DisplayInterface \<Rightarrow> bool \<times> DisplayInterface" where
  "try_lock di =
     (case m_pOsgWidget_DI di of
        Some wd \<Rightarrow> (if osgLocked di then (False, di) else (True, di\<lparr>osgLocked := True\<rparr>))
      | None \<Rightarrow> (False, di))"

definition unlock :: "DisplayInterface \<Rightarrow> bool \<times> DisplayInterface" where
  "unlock di =
     (case m_pOsgWidget_DI di of
        Some wd \<Rightarrow> (True, di\<lparr>osgLocked := False\<rparr>)
      | None \<Rightarrow> (False, di))"

text \<open>A display thread that completes the setup without having made a window.\<close>

definition display_without_window :: "DisplayInterface \<Rightarrow> DisplayInterface option" where
  "display_without_window di = Some (di\<lparr>m_setupComplete := True\<rparr>)"

section \<open>The display thread, the callers and the destructor, step by step\<close>

text \<open>
  The startup and the teardown are a protocol between threads, so they are modelled as a
  transition system: the shared coordinator, the owner of \<open>m_mutex\<close>, and for each thread
  the statement it is at. One step is one statement of the source; a step that cannot be
  taken now (a taken mutex, a wait, a join) is \<open>None\<close>. Reads and writes of the flags
  take effect at once, in the order of the steps.

  A thread blocked in \<open>m_addNotify.wait\<close> has released the mutex. It leaves the wait after
  a \<open>notify_all\<close>, and it may also leave it with no notification at all (a spurious
  wake-up, which \<open>std::condition_variable::wait\<close> allows and never promises); either way
  it then takes the mutex again and goes back to the test of its loop. Every step
  function of a waiting thread therefore has the argument \<open>spurious\<close>: whether the wait
  returns now without a notification.

  How often each of the three objects has been made is counted. The scene plays no part
  in the protocol; the tree view is made over the scene \<open>scene1\<close>, the osg widget with
  root group 0.
\<close>

datatype tid = Display | Caller nat | Destructor

text \<open>The statements of the display thread's lambda (constructor, lines 292 to 375).\<close>

datatype display_pc =
    D_start          \<comment> \<open>before \<open>m_setupComplete = false\<close>\<close>
  | D_lock           \<comment> \<open>before taking \<open>l_lock\<close>\<close>
  | D_test           \<comment> \<open>before the test \<open>not m_haveData\<close>\<close>
  | D_wait           \<comment> \<open>before the call of \<open>wait\<close>\<close>
  | D_waiting        \<comment> \<open>blocked in \<open>wait\<close>\<close>
  | D_woken          \<comment> \<open>woken (notified or not), before taking the mutex again\<close>
  | D_check_run      \<comment> \<open>before the test \<open>not m_threadShouldRun\<close>\<close>
  | D_make_app       \<comment> \<open>before \<open>new QApplication\<close>\<close>
  | D_make_window    \<comment> \<open>before the block that makes the window\<close>
  | D_make_widget    \<comment> \<open>before the block that makes the osg widget\<close>
  | D_make_view      \<comment> \<open>before the block that makes the tree view\<close>
  | D_unlock         \<comment> \<open>before the end of the scope of \<open>l_lock\<close>\<close>
  | D_set_complete   \<comment> \<open>before \<open>m_setupComplete = true\<close>\<close>
  | D_notify         \<comment> \<open>before \<open>notify_all\<close>\<close>
  | D_loop           \<comment> \<open>at the head of the event loop\<close>
  | D_exit           \<comment> \<open>the lambda has returned\<close>

text \<open>
  The public operations that go through \<open>setupMainWindow\<close>: \<open>add\<close> of a node (uses the
  tree view under \<open>m_mutex\<close>), \<open>add\<close> of a handler (uses the osg widget under
  \<open>m_mutex\<close>), \<open>track\<close> and \<open>lock\<close> (use the osg widget without the mutex; \<open>lock\<close> does
  not set \<open>m_haveData\<close>).
\<close>

datatype operation = Op_add | Op_add_handler | Op_track | Op_lock

datatype caller_pc =
    C_set_data       \<comment> \<open>before \<open>m_haveData = true\<close>\<close>
  | C_test_window    \<comment> \<open>\<open>setupMainWindow\<close>: before the test \<open>nullptr == m_pMainWindow\<close>\<close>
  | C_lock           \<comment> \<open>before taking \<open>l_lock\<close>\<close>
  | C_notify         \<comment> \<open>before \<open>notify_all\<close>\<close>
  | C_test_complete  \<comment> \<open>before the test \<open>not m_setupComplete\<close>\<close>
  | C_wait           \<comment> \<open>before the call of \<open>wait\<close>\<close>
  | C_waiting        \<comment> \<open>blocked in \<open>wait\<close>\<close>
  | C_woken          \<comment> \<open>woken (notified or not), before taking the mutex again\<close>
  | C_unlock         \<comment> \<open>before the end of the scope of \<open>l_lock\<close>\<close>
  | C_return         \<comment> \<open>before \<open>return nullptr != m_pMainWindow\<close> and the caller's test of it\<close>
  | C_reset_data     \<comment> \<open>before \<open>m_haveData = false; return false\<close>\<close>
  | C_guard          \<comment> \<open>before the \<open>lock_guard\<close> on \<open>m_mutex\<close>\<close>
  | C_use            \<comment> \<open>before the call through \<open>m_pTreeView\<close> or \<open>m_pOsgWidget\<close>\<close>
  | C_release        \<comment> \<open>before the end of the scope of the \<open>lock_guard\<close>\<close>
  | C_returned bool  \<comment> \<open>the operation has returned\<close>
  | C_crashed        \<comment> \<open>the operation has called through a null pointer\<close>

text \<open>The statements of the destructor (lines 380 to 401).\<close>

datatype destructor_pc =
    X_idle           \<comment> \<open>the coordinator is not being destroyed\<close>
  | X_start          \<comment> \<open>before \<open>QCoreApplication::exit(0)\<close>\<close>
  | X_test_window    \<comment> \<open>before the test \<open>nullptr != m_pMainWindow\<close>\<close>
  | X_lock           \<comment> \<open>before the \<open>lock_guard\<close>\<close>
  | X_close          \<comment> \<open>before \<open>close()\<close> and the end of the scope\<close>
  | X_set_data       \<comment> \<open>before \<open>m_haveData = true\<close>\<close>
  | X_set_run        \<comment> \<open>before \<open>m_threadShouldRun = false\<close>\<close>
  | X_notify         \<comment> \<open>before \<open>if (not m_setupComplete) notify_all\<close>\<close>
  | X_join           \<comment> \<open>before \<open>m_displayThread.join()\<close>\<close>
  | X_done           \<comment> \<open>the destructor has returned\<close>

record system =
  shared :: DisplayInterface
  m_mutex :: "tid option"
  display_at :: display_pc
  callers :: "(operation \<times> caller_pc) list"
  destructor_at :: destructor_pc
  windows_made :: nat
  widgets_made :: nat
  views_made :: nat

text \<open>\<open>m_addNotify.notify_all()\<close>: every thread blocked in \<open>wait\<close> is woken.\<close>

definition notify_all :: "system \<Rightarrow> system" where
  "notify_all s =
     s\<lparr>display_at := (if display_at s = D_waiting then D_woken else display_at s),
       callers := map (\<lambda>(op, pc). (op, if pc = C_waiting then C_woken else pc)) (callers s)\<rparr>"

definition display_step :: "bool \<Rightarrow> system \<Rightarrow> system option" where
  "display_step spurious s =
     (case display_at s of
        D_start \<Rightarrow> Some (s\<lparr>shared := (shared s)\<lparr>m_setupComplete := False\<rparr>, display_at := D_lock\<rparr>)
      | D_lock \<Rightarrow>
          (if m_mutex s = None then Some (s\<lparr>m_mutex := Some Display, display_at := D_test\<rparr>) else None)
      | D_test \<Rightarrow>
          Some (s\<lparr>display_at := (if \<not> m_haveData (shared s) then D_wait else D_check_run)\<rparr>)
      | D_wait \<Rightarrow> Some (s\<lparr>m_mutex := None, display_at := D_waiting\<rparr>)
      | D_waiting \<Rightarrow> (if spurious then Some (s\<lparr>display_at := D_woken\<rparr>) else None)
      | D_woken \<Rightarrow>
          (if m_mutex s = None then Some (s\<lparr>m_mutex := Some Display, display_at := D_test\<rparr>) else None)
      | D_check_run \<Rightarrow>
          (if \<not> m_threadShouldRun (shared s) then Some (s\<lparr>m_mutex := None, display_at := D_exit\<rparr>)
           else Some (s\<lparr>display_at := D_make_app\<rparr>))
      | D_make_app \<Rightarrow> Some (s\<lparr>display_at := D_make_window\<rparr>)
      | D_make_window \<Rightarrow>
          (if m_pMainWindow (shared s) = None
           then Some (s\<lparr>shared := (shared s)\<lparr>m_pMainWindow := Some \<lparr>isVisible = True\<rparr>\<rparr>,
                        windows_made := Suc (windows_made s), display_at := D_make_widget\<rparr>)
           else Some (s\<lparr>display_at := D_make_widget\<rparr>))
      | D_make_widget \<Rightarrow>
          (if m_pOsgWidget_DI (shared s) = None
           then Some (s\<lparr>shared := (shared s)\<lparr>m_pOsgWidget_DI := Some \<lparr>rootGroup = 0\<rparr>\<rparr>,
                        widgets_made := Suc (widgets_made s), display_at := D_make_view\<rparr>)
           else Some (s\<lparr>display_at := D_make_view\<rparr>))
      | D_make_view \<Rightarrow>
          (if m_pTreeView (shared s) = None
           then Some (s\<lparr>shared := (shared s)\<lparr>m_pTreeView :=
                                     Some (setOsgWidget (m_pOsgWidget_DI (shared s)) new_TreeView scene1)\<rparr>,
                        views_made := Suc (views_made s), display_at := D_unlock\<rparr>)
           else Some (s\<lparr>display_at := D_unlock\<rparr>))
      | D_unlock \<Rightarrow> Some (s\<lparr>m_mutex := None, display_at := D_set_complete\<rparr>)
      | D_set_complete \<Rightarrow>
          Some (s\<lparr>shared := (shared s)\<lparr>m_setupComplete := True\<rparr>, display_at := D_notify\<rparr>)
      | D_notify \<Rightarrow> Some ((notify_all s)\<lparr>display_at := D_loop\<rparr>)
      | D_loop \<Rightarrow>
          (if m_threadShouldRun (shared s) then Some s else Some (s\<lparr>display_at := D_exit\<rparr>))
      | D_exit \<Rightarrow> None)"

definition set_caller :: "nat \<Rightarrow> caller_pc \<Rightarrow> system \<Rightarrow> system" where
  "set_caller i pc s = s\<lparr>callers := (callers s)[i := (fst (callers s ! i), pc)]\<rparr>"

definition caller_step :: "bool \<Rightarrow> nat \<Rightarrow> system \<Rightarrow> system option" where
  "caller_step spurious i s =
     (if \<not> i < length (callers s) then None
      else
        (case callers s ! i of (op, pc) \<Rightarrow>
           (case pc of
              C_set_data \<Rightarrow>
                Some (set_caller i C_test_window (s\<lparr>shared := (shared s)\<lparr>m_haveData := True\<rparr>\<rparr>))
            | C_test_window \<Rightarrow>
                Some (set_caller i (if m_pMainWindow (shared s) = None then C_lock else C_return) s)
            | C_lock \<Rightarrow>
                (if m_mutex s = None then Some (set_caller i C_notify (s\<lparr>m_mutex := Some (Caller i)\<rparr>))
                 else None)
            | C_notify \<Rightarrow> Some (set_caller i C_test_complete (notify_all s))
            | C_test_complete \<Rightarrow>
                Some (set_caller i (if \<not> m_setupComplete (shared s) then C_wait else C_unlock) s)
            | C_wait \<Rightarrow> Some (set_caller i C_waiting (s\<lparr>m_mutex := None\<rparr>))
            | C_waiting \<Rightarrow> (if spurious then Some (set_caller i C_woken s) else None)
            | C_woken \<Rightarrow>
                (if m_mutex s = None
                 then Some (set_caller i C_test_complete (s\<lparr>m_mutex := Some (Caller i)\<rparr>))
                 else None)
            | C_unlock \<Rightarrow> Some (set_caller i C_return (s\<lparr>m_mutex := None\<rparr>))
            | C_return \<Rightarrow>
                (if m_pMainWindow (shared s) = None then Some (set_caller i C_reset_data s)
                 else if op = Op_add \<or> op = Op_add_handler then Some (set_caller i C_guard s)
                 else Some (set_caller i C_use s))
            | C_reset_data \<Rightarrow>
                Some (set_caller i (C_returned False) (s\<lparr>shared := (shared s)\<lparr>m_haveData := False\<rparr>\<rparr>))
            | C_guard \<Rightarrow>
                (if m_mutex s = None then Some (set_caller i C_use (s\<lparr>m_mutex := Some (Caller i)\<rparr>))
                 else None)
            | C_use \<Rightarrow>
                (case op of
                   Op_add \<Rightarrow>
                     Some (set_caller i (if m_pTreeView (shared s) = None then C_crashed else C_release) s)
                 | Op_add_handler \<Rightarrow>
                     Some (set_caller i (if m_pOsgWidget_DI (shared s) = None then C_crashed else C_release) s)
                 | Op_track \<Rightarrow>
                     Some (set_caller i
                            (if m_pOsgWidget_DI (shared s) = None then C_crashed else C_returned True) s)
                 | Op_lock \<Rightarrow>
                     Some (set_caller i
                            (if m_pOsgWidget_DI (shared s) = None then C_crashed else C_returned True) s))
            | C_release \<Rightarrow> Some (set_caller i (C_returned True) (s\<lparr>m_mutex := None\<rparr>))
            | C_returned b \<Rightarrow> None
            | C_crashed \<Rightarrow> None)))"

definition destructor_step :: "system \<Rightarrow> system option" where
  "destructor_step s =
     (case destructor_at s of
        X_idle \<Rightarrow> None
      | X_start \<Rightarrow> Some (s\<lparr>destructor_at := X_test_window\<rparr>)
      | X_test_window \<Rightarrow>
          Some (s\<lparr>destructor_at := (if m_pMainWindow (shared s) \<noteq> None then X_lock else X_set_data)\<rparr>)
      | X_lock \<Rightarrow>
          (if m_mutex s = None then Some (s\<lparr>m_mutex := Some Destructor, destructor_at := X_close\<rparr>)
           else None)
      | X_close \<Rightarrow>
          Some (s\<lparr>shared := (shared s)\<lparr>m_pMainWindow :=
                                   map_option (\<lambda>mw. mw\<lparr>isVisible := False\<rparr>) (m_pMainWindow (shared s))\<rparr>,
                  m_mutex := None, destructor_at := X_set_data\<rparr>)
      | X_set_data \<Rightarrow> Some (s\<lparr>shared := (shared s)\<lparr>m_haveData := True\<rparr>, destructor_at := X_set_run\<rparr>)
      | X_set_run \<Rightarrow>
          Some (s\<lparr>shared := (shared s)\<lparr>m_threadShouldRun := False\<rparr>, destructor_at := X_notify\<rparr>)
      | X_notify \<Rightarrow>
          Some ((if \<not> m_setupComplete (shared s) then notify_all s else s)\<lparr>destructor_at := X_join\<rparr>)
      | X_join \<Rightarrow> (if display_at s = D_exit then Some (s\<lparr>destructor_at := X_done\<rparr>) else None)
      | X_done \<Rightarrow> None)"

text \<open>
  A step of a thread, with or without a spurious wake-up; \<open>step\<close> is the step without
  one, so that a waiting thread moves only when it has been notified.
\<close>

fun thread_step :: "bool \<Rightarrow> tid \<Rightarrow> system \<Rightarrow> system option" where
  "thread_step spurious Display s = display_step spurious s"
| "thread_step spurious (Caller i) s = caller_step spurious i s"
| "thread_step spurious Destructor s = destructor_step s"

definition step :: "tid \<Rightarrow> system \<Rightarrow> system option" where
  "step t s = thread_step False t s"

text \<open>
  A schedule is the list of the threads in the order they take their steps; in a schedule
  with wake-ups each thread comes with the flag \<open>spurious\<close> for that step.
\<close>

fun run :: "tid list \<Rightarrow> system \<Rightarrow> system option" where
  "run [] s = Some s"
| "run (t # ts) s = (case step t s of None \<Rightarrow> None | Some s' \<Rightarrow> run ts s')"

fun run_waking :: "(bool \<times> tid) list \<Rightarrow> system \<Rightarrow> system option" where
  "run_waking [] s = Some s"
| "run_waking ((spurious, t) # ts) s =
     (case thread_step spurious t s of None \<Rightarrow> None | Some s' \<Rightarrow> run_waking ts s')"

text \<open>
  The states one step away, over all threads, when no wait returns without a
  notification. Where this list is empty, nothing but a spurious wake-up can make the
  system move again.
\<close>

definition next_states :: "system \<Rightarrow> system list" where
  "next_states s =
     List.map_filter (\<lambda>t. step t s) (Display # Destructor # map Caller [0 ..< length (callers s)])"

text \<open>
  Every run from \<open>s\<close> in which no wait returns without a notification comes to an end
  within \<open>n\<close> steps, in a state where no thread can take a step and \<open>P\<close> holds.
\<close>

fun all_runs_end :: "nat \<Rightarrow> (system \<Rightarrow> bool) \<Rightarrow> system \<Rightarrow> bool" where
  "all_runs_end 0 P s = (next_states s = [] \<and> P s)"
| "all_runs_end (Suc n) P s =
     (if next_states s = [] then P s else list_all (all_runs_end n P) (next_states s))"

text \<open>
  The state the constructor leaves (the display thread has been started), with the given
  operations about to be called; and the state in which the display thread has parked
  itself in \<open>wait\<close> before any operation was called, and the destructor is about to run.
\<close>

definition started :: "operation list \<Rightarrow> system" where
  "started ops =
     \<lparr>shared = new_DisplayInterface, m_mutex = None, display_at = D_start,
      callers = map (\<lambda>op. (op, if op = Op_lock then C_test_window else C_set_data)) ops,
      destructor_at = X_idle, windows_made = 0, widgets_made = 0, views_made = 0\<rparr>"

definition parked_at_teardown :: system where
  "parked_at_teardown =
     \<lparr>shared = new_DisplayInterface, m_mutex = None, display_at = D_waiting, callers = [],
      destructor_at = X_start, windows_made = 0, widgets_made = 0, views_made = 0\<rparr>"

text \<open>
  The state in which the teardown is stuck: the flags are set, the display thread is
  blocked in \<open>wait\<close> and the destructor in \<open>join\<close>.
\<close>

definition teardown_stuck :: system where
  "teardown_stuck =
     \<lparr>shared = new_DisplayInterface\<lparr>m_haveData := True, m_threadShouldRun := False\<rparr>,
      m_mutex = None, display_at = D_waiting, callers = [], destructor_at = X_join,
      windows_made = 0, widgets_made = 0, views_made = 0\<rparr>"

definition torn_down :: "system \<Rightarrow> bool" where
  "torn_down s \<longleftrightarrow>
     display_at s = D_exit \<and> destructor_at s = X_done \<and> m_mutex s = None \<and>
     m_haveData (shared s) \<and> \<not> m_threadShouldRun (shared s) \<and>
     m_pMainWindow (shared s) = None \<and> windows_made s = 0 \<and> widgets_made s = 0 \<and> views_made s = 0"

text \<open>The states a system can get to, whatever the schedule and the spurious wake-ups.\<close>

inductive reaches :: "system \<Rightarrow> system \<Rightarrow> bool" for s where
  here: "reaches s s"
| later: "reaches s s' \<Longrightarrow> thread_step spurious t s' = Some s'' \<Longrightarrow> reaches s s''"

text \<open>
  Two invariants of the startup: each object has been made once exactly when its pointer
  is set; and the display thread is past a statement only with the objects made before
  it, \<open>m_setupComplete\<close> being set only once all three are there.
\<close>

definition made_once :: "system \<Rightarrow> bool" where
  "made_once s \<longleftrightarrow>
     windows_made s = (case m_pMainWindow (shared s) of None \<Rightarrow> 0 | Some mw \<Rightarrow> 1) \<and>
     widgets_made s = (case m_pOsgWidget_DI (shared s) of None \<Rightarrow> 0 | Some wd \<Rightarrow> 1) \<and>
     views_made s = (case m_pTreeView (shared s) of None \<Rightarrow> 0 | Some tv \<Rightarrow> 1)"

definition all_made :: "system \<Rightarrow> bool" where
  "all_made s \<longleftrightarrow>
     m_pMainWindow (shared s) \<noteq> None \<and> m_pOsgWidget_DI (shared s) \<noteq> None \<and>
     m_pTreeView (shared s) \<noteq> None"

definition complete_inv :: "system \<Rightarrow> bool" where
  "complete_inv s \<longleftrightarrow>
     (display_at s = D_make_widget \<longrightarrow> m_pMainWindow (shared s) \<noteq> None) \<and>
     (display_at s = D_make_view \<longrightarrow>
        m_pMainWindow (shared s) \<noteq> None \<and> m_pOsgWidget_DI (shared s) \<noteq> None) \<and>
     (display_at s = D_unlock \<or> display_at s = D_set_complete \<or> m_setupComplete (shared s) \<longrightarrow> all_made s) \<and>
     (m_setupComplete (shared s) \<longrightarrow>
        display_at s = D_notify \<or> display_at s = D_loop \<or> display_at s = D_exit)"

section \<open>Facts about the scene, the items and the path walk\<close>

lemma str_find_split:
  "segment A \<Longrightarrow> str_find (A @ CHR '':'' # CHR '':'' # rest) splitIndicator = Some (length A)"
proof (induction A)
  case Nil
  show ?case by (simp add: splitIndicator_def)
next
  case (Cons c A)
  from Cons.prems have "segment A"
    by (simp add: segment_def split: if_splits)
  with Cons.IH have "str_find (A @ CHR '':'' # CHR '':'' # rest) splitIndicator = Some (length A)"
    by simp
  moreover from Cons.prems have "\<not> prefix splitIndicator (c # A @ CHR '':'' # CHR '':'' # rest)"
    by (cases A) (auto simp: segment_def splitIndicator_def split: if_splits)
  ultimately show ?case by simp
qed

lemma add_split:
  "segment A \<Longrightarrow>
   add (A @ ''::'' @ rest) path node en sh atd parent sc = addParent A rest path node en sh atd parent sc"
  by (subst add.simps) (simp add: str_find_split substr_def, simp add: splitIndicator_def)

lemma add_leaf:
  "str_find leaf splitIndicator = None \<Longrightarrow>
   add leaf path node en sh atd parent sc =
     (case findChild parent leaf of
             None \<Rightarrow> createNewEntry leaf path node en sh atd parent sc
           | Some i \<Rightarrow> replaceNode i node en atd parent sc)"
  by (subst add.simps) simp

lemma item_simps [simp]:
  "setEnabled b (d3DisplayItem n p nd e c pm rs) = d3DisplayItem n p nd b c pm rs"
  "setCheckState c' (d3DisplayItem n p nd e c pm rs) = d3DisplayItem n p nd e c' pm rs"
  "setPriorNodeMask m (d3DisplayItem n p nd e c pm rs) = d3DisplayItem n p nd e c m rs"
  "setNode nd' (d3DisplayItem n p nd e c pm rs) = d3DisplayItem n p nd' e c pm rs"
  "setRows rs' (d3DisplayItem n p nd e c pm rs) = d3DisplayItem n p nd e c pm rs'"
  by (simp_all add: setEnabled_def setCheckState_def setPriorNodeMask_def setNode_def setRows_def)

lemma scene_simps [simp]:
  "getNodeMask n (setNodeMask n' m sc) = (if n = n' then m else getNodeMask n sc)"
  "getNodeMask n (addChild g c sc) = getNodeMask n sc"
  "getNodeMask n (removeChild g c sc) = getNodeMask n sc"
  "asGroup n (setNodeMask n' m sc) = asGroup n sc"
  "asGroup n (addChild g c sc) = asGroup n sc"
  "asGroup n (removeChild g c sc) = asGroup n sc"
  "getNodeMask n (snd (new_Group sc)) = (if n = nextNode sc then - 1 else getNodeMask n sc)"
  "asGroup n (snd (new_Group sc)) = (n = nextNode sc \<or> asGroup n sc)"
  "fst (new_Group sc) = nextNode sc"
  "nextNode (snd (new_Group sc)) = Suc (nextNode sc)"
  "nextNode (setNodeMask n' m sc) = nextNode sc"
  "nextNode (addChild g c sc) = nextNode sc"
  "nextNode (removeChild g c sc) = nextNode sc"
  by (simp_all add: getNodeMask_def setNodeMask_def addChild_def removeChild_def asGroup_def new_Group_def)

lemma addParent_new:
  assumes "findChild parent pname = None" and "asGroup (getNode parent) sc"
  shows "addParent pname cname path node en sh atd parent sc =
     (case add cname path node en sh atd (d3DisplayItem pname path (nextNode sc) True Checked (- 1) [])
             (addChild (getNode parent) (nextNode sc) (snd (new_Group sc))) of
        Inl e \<Rightarrow> Inl e
      | Inr (rv, entry', sc3) \<Rightarrow> Inr (rv, setRows (rows parent @ [entry']) parent, sc3))"
  using assms
  by (subst addParent.simps)
     (cases parent, simp add: split_beta Let_def new_d3DisplayItem_def appendRow_def split: sum.splits)

lemma addParent_found:
  assumes "findChild parent pname = Some i" and "asGroup (getNode (rows parent ! i)) sc"
  shows "addParent pname cname path node en sh atd parent sc =
     (case add cname path node en sh atd (rows parent ! i) sc of
        Inl e \<Rightarrow> Inl e
      | Inr (rv, entry', sc3) \<Rightarrow> Inr (rv, setRows ((rows parent)[i := entry']) parent, sc3))"
  using assms by (subst addParent.simps) simp

lemma addParent_conflict:
  assumes "findChild parent pname = Some i" and "\<not> asGroup (getNode (rows parent ! i)) sc"
  shows "addParent pname cname path node en sh atd parent sc = Inr (False, parent, sc)"
  using assms by (subst addParent.simps) simp

lemma scene_children [simp]:
  "children (nodes (setNodeMask n m sc) g) = children (nodes sc g)"
  "children (nodes (addChild g' c sc) g) = (if g = g' then children (nodes sc g) @ [c] else children (nodes sc g))"
  "children (nodes (removeChild g' c sc) g) =
     (if g = g' then remove1 c (children (nodes sc g)) else children (nodes sc g))"
  "children (nodes (snd (new_Group sc)) g) = (if g = nextNode sc then [] else children (nodes sc g))"
  by (simp_all add: setNodeMask_def addChild_def removeChild_def new_Group_def)

lemma createNewEntry_leaf:
  assumes "addToDisplay \<longrightarrow> asGroup (getNode parent) sc"
  shows "createNewEntry name path node True showNode addToDisplay parent sc =
     Inr (True,
          appendRow (d3DisplayItem name path node True (if showNode then Checked else Unchecked)
                       (getNodeMask node sc) []) parent,
          (let sc1 = (if addToDisplay then addChild (getNode parent) node sc else sc)
           in if showNode then sc1 else setNodeMask node 0 sc1))"
  using assms
  by (cases showNode)
     (auto simp add: createNewEntry_def new_d3DisplayItem_def clicked_item_def Let_def)

lemma first_add:
  assumes A: "segment A" and B: "segment B" and L: "str_find leaf splitIndicator = None"
    and root: "asGroup (getNode topEntry) sc" and rootlt: "getNode topEntry < nextNode sc"
    and nodeX: "nodeX < nextNode sc" and empty: "rows topEntry = []"
    and full: "full = A @ ''::'' @ B @ ''::'' @ leaf"
  shows "\<exists>sc1.
     add full full nodeX True showNode addToDisplay topEntry sc
       = Inr (True,
              setRows [d3DisplayItem A full (nextNode sc) True Checked (- 1)
                       [d3DisplayItem B full (Suc (nextNode sc)) True Checked (- 1)
                          [d3DisplayItem leaf full nodeX True
                             (if showNode then Checked else Unchecked) (getNodeMask nodeX sc) []]]] topEntry,
              sc1)
     \<and> asGroup (nextNode sc) sc1 \<and> asGroup (Suc (nextNode sc)) sc1
     \<and> children (nodes sc1 (nextNode sc)) = [Suc (nextNode sc)]
     \<and> children (nodes sc1 (Suc (nextNode sc))) = (if addToDisplay then [nodeX] else [])
     \<and> getNodeMask nodeX sc1 = (if showNode then getNodeMask nodeX sc else 0)"
proof -
  define scA where "scA = addChild (getNode topEntry) (nextNode sc) (snd (new_Group sc))"
  define scB where "scB = addChild (nextNode sc) (Suc (nextNode sc)) (snd (new_Group scA))"
  define itA where "itA = d3DisplayItem A full (nextNode sc) True Checked (- 1) []"
  define itB where "itB = d3DisplayItem B full (Suc (nextNode sc)) True Checked (- 1) []"
  define lf where "lf = d3DisplayItem leaf full nodeX True
              (if showNode then Checked else Unchecked) (getNodeMask nodeX sc) []"
  define sc1 where "sc1 = (let s = (if addToDisplay then addChild (getNode itB) nodeX scB else scB)
           in if showNode then s else setNodeMask nodeX 0 s)"
  have maskX: "getNodeMask nodeX scB = getNodeMask nodeX sc"
    using nodeX by (simp add: scB_def scA_def)
  have grpB: "asGroup (getNode itB) scB"
    by (simp add: itB_def scB_def scA_def)
  have cr: "createNewEntry leaf full nodeX True showNode addToDisplay itB scB =
      Inr (True, setRows [lf] itB, sc1)"
    using grpB by (simp add: createNewEntry_leaf maskX lf_def sc1_def appendRow_def itB_def)
  have leaf1: "add leaf full nodeX True showNode addToDisplay itB scB = Inr (True, setRows [lf] itB, sc1)"
    by (simp add: add_leaf[OF L] findChild_def itB_def cr[unfolded itB_def])
  have "add (B @ ''::'' @ leaf) full nodeX True showNode addToDisplay itA scA =
        addParent B leaf full nodeX True showNode addToDisplay itA scA"
    by (rule add_split[OF B])
  also have "\<dots> = (case add leaf full nodeX True showNode addToDisplay itB scB of
        Inl e \<Rightarrow> Inl e
      | Inr (rv, entry', sc3) \<Rightarrow> Inr (rv, setRows (rows itA @ [entry']) itA, sc3))"
    unfolding itB_def scB_def
    by (subst addParent_new) (simp_all add: findChild_def itA_def scA_def)
  also have "\<dots> = Inr (True, setRows [setRows [lf] itB] itA, sc1)"
    unfolding leaf1 by (simp add: itA_def)
  finally have stepB: "add (B @ ''::'' @ leaf) full nodeX True showNode addToDisplay itA scA =
      Inr (True, setRows [setRows [lf] itB] itA, sc1)" .
  have "add full full nodeX True showNode addToDisplay topEntry sc =
        addParent A (B @ ''::'' @ leaf) full nodeX True showNode addToDisplay topEntry sc"
    using add_split[OF A, of "B @ ''::'' @ leaf" full] by (simp only: full[symmetric])
  also have "\<dots> = (case add (B @ ''::'' @ leaf) full nodeX True showNode addToDisplay itA scA of
        Inl e \<Rightarrow> Inl e
      | Inr (rv, entry', sc3) \<Rightarrow> Inr (rv, setRows (rows topEntry @ [entry']) topEntry, sc3))"
    unfolding itA_def scA_def
    by (subst addParent_new) (simp_all add: findChild_def empty root)
  also have "\<dots> = Inr (True, setRows [setRows [setRows [lf] itB] itA] topEntry, sc1)"
    unfolding stepB by (simp add: empty)
  finally have stepA: "add full full nodeX True showNode addToDisplay topEntry sc =
      Inr (True, setRows [setRows [setRows [lf] itB] itA] topEntry, sc1)" .
  have facts: "asGroup (nextNode sc) sc1" "asGroup (Suc (nextNode sc)) sc1"
     "children (nodes sc1 (nextNode sc)) = [Suc (nextNode sc)]"
     "children (nodes sc1 (Suc (nextNode sc))) = (if addToDisplay then [nodeX] else [])"
     "getNodeMask nodeX sc1 = (if showNode then getNodeMask nodeX sc else 0)"
    using rootlt nodeX by (simp_all add: sc1_def Let_def scB_def scA_def itB_def)
  show ?thesis
    using stepA facts unfolding itA_def itB_def lf_def by (simp only: item_simps) blast
qed

lemma second_add:
  assumes A: "segment A" and B: "segment B" and L: "str_find leaf splitIndicator = None"
    and full: "full = A @ ''::'' @ B @ ''::'' @ leaf"
    and gA: "asGroup gA sc" and gB: "asGroup gB sc"
  shows "\<exists>sc2.
     add full path nodeY True showNode addToDisplay
        (d3DisplayItem tn tp tnode te tc tpm
           [d3DisplayItem A pa gA ea ca pma [d3DisplayItem B pb gB eb cb pmb
              [d3DisplayItem leaf pl nodeX el cl pml rsl]]]) sc
       = Inr (True,
              d3DisplayItem tn tp tnode te tc tpm
               [d3DisplayItem A pa gA ea ca pma [d3DisplayItem B pb gB eb cb pmb
                  [d3DisplayItem leaf pl nodeY True cl pml rsl]]],
              sc2)
     \<and> getNodeMask nodeY sc2 = getNodeMask nodeX sc"
proof -
  define itB where "itB = d3DisplayItem B pb gB eb cb pmb [d3DisplayItem leaf pl nodeX el cl pml rsl]"
  define itA where "itA = d3DisplayItem A pa gA ea ca pma [itB]"
  define topEntry where "topEntry = d3DisplayItem tn tp tnode te tc tpm [itA]"
  define sc1 where "sc1 = setNodeMask nodeY (getNodeMask nodeX sc) sc"
  define sc2 where "sc2 = (if addToDisplay then addChild gB nodeY (removeChild gB nodeX sc1) else sc1)"
  have rp: "replaceNode 0 nodeY True addToDisplay itB sc =
      Inr (True, setRows [d3DisplayItem leaf pl nodeY True cl pml rsl] itB, sc2)"
    using gB by (simp add: replaceNode_def itB_def sc2_def sc1_def Let_def)
  have leaf1: "add leaf path nodeY True showNode addToDisplay itB sc =
      Inr (True, setRows [d3DisplayItem leaf pl nodeY True cl pml rsl] itB, sc2)"
    unfolding add_leaf[OF L] using rp by (simp add: findChild_def itB_def)
  have "add (B @ ''::'' @ leaf) path nodeY True showNode addToDisplay itA sc =
        addParent B leaf path nodeY True showNode addToDisplay itA sc"
    by (rule add_split[OF B])
  also have "\<dots> = (case add leaf path nodeY True showNode addToDisplay itB sc of
        Inl e \<Rightarrow> Inl e
      | Inr (rv, entry', sc3) \<Rightarrow> Inr (rv, setRows ((rows itA)[0 := entry']) itA, sc3))"
    by (subst addParent_found[where i = 0]) (simp_all add: findChild_def itA_def itB_def gB)
  also have "\<dots> = Inr (True, setRows [setRows [d3DisplayItem leaf pl nodeY True cl pml rsl] itB] itA, sc2)"
    unfolding leaf1 by (simp add: itA_def)
  finally have stepB: "add (B @ ''::'' @ leaf) path nodeY True showNode addToDisplay itA sc =
        Inr (True, setRows [setRows [d3DisplayItem leaf pl nodeY True cl pml rsl] itB] itA, sc2)" .
  have "add full path nodeY True showNode addToDisplay topEntry sc =
        addParent A (B @ ''::'' @ leaf) path nodeY True showNode addToDisplay topEntry sc"
    using add_split[OF A, of "B @ ''::'' @ leaf" path] by (simp only: full[symmetric])
  also have "\<dots> = (case add (B @ ''::'' @ leaf) path nodeY True showNode addToDisplay itA sc of
        Inl e \<Rightarrow> Inl e
      | Inr (rv, entry', sc3) \<Rightarrow> Inr (rv, setRows ((rows topEntry)[0 := entry']) topEntry, sc3))"
    by (subst addParent_found[where i = 0]) (simp_all add: findChild_def topEntry_def itA_def gA)
  also have "\<dots> = Inr (True, setRows [setRows [setRows [d3DisplayItem leaf pl nodeY True cl pml rsl] itB] itA] topEntry, sc2)"
    unfolding stepB by (simp add: topEntry_def)
  finally have stepA: "add full path nodeY True showNode addToDisplay topEntry sc =
      Inr (True, setRows [setRows [setRows [d3DisplayItem leaf pl nodeY True cl pml rsl] itB] itA] topEntry, sc2)" .
  have "getNodeMask nodeY sc2 = getNodeMask nodeX sc"
    by (simp add: sc2_def sc1_def)
  with stepA show ?thesis
    unfolding topEntry_def itA_def itB_def by (simp only: item_simps) blast
qed

text \<open>
  The rejection the code has: a path that goes on below an existing item whose node is no
  group. The add returns false and neither the view nor the scene changes.
\<close>

lemma add_through_non_group_rejected:
  assumes X: "segment X"
    and w: "m_pOsgWidget tv = Some w"
    and model: "m_pModel tv = topEntry # rest"
    and found: "findChild topEntry X = Some i"
    and leaf: "\<not> asGroup (getNode (rows topEntry ! i)) sc"
  shows "TreeView_add (X @ ''::'' @ Y) node showNode addToDisplay tv sc = Inr (False, tv, sc)"
proof -
  have "add (X @ ''::'' @ Y) (X @ ''::'' @ Y) node True showNode addToDisplay topEntry sc =
        Inr (False, topEntry, sc)"
    unfolding add_split[OF X] using found leaf by (rule addParent_conflict)
  moreover have "tv\<lparr>m_pModel := topEntry # rest\<rparr> = tv"
    using model by simp
  ultimately show ?thesis
    unfolding TreeView_add_def by (simp add: w model)
qed

section \<open>Facts about updateChildren and clicked\<close>

lemma nodes_setNodeMask_other [simp]: "n \<noteq> n' \<Longrightarrow> nodes (setNodeMask n' m sc) n = nodes sc n"
  by (simp add: setNodeMask_def)

lemma updateChildren_frame:
  "n \<notin> set (touched item) \<Longrightarrow> nodes (snd (updateChildren item checked sc)) n = nodes sc n"
  "n \<notin> set (touched_rows rs) \<Longrightarrow> nodes (snd (updateChildren_rows rs checked sc)) n = nodes sc n"
proof (induction item checked sc and rs checked sc rule: updateChildren_updateChildren_rows.induct)
  case (1 nm p nd e c pm rs checked sc)
  then show ?case by (auto simp: split_beta Let_def)
next
  case (2 checked sc)
  show ?case by simp
next
  case (3 child rest checked sc)
  obtain c' sc1 where u: "updateChildren child checked sc = (c', sc1)"
    by (cases "updateChildren child checked sc")
  from 3 have "nodes sc1 n = nodes sc n" by (simp add: u)
  moreover from 3 have "nodes (snd (updateChildren_rows rest checked sc1)) n = nodes sc1 n"
    using u by simp
  ultimately show ?case by (simp add: u split_beta)
qed

lemma touched_subset:
  "set (touched item) \<subseteq> set (nodes_of item)"
  "set (touched_rows rs) \<subseteq> set (nodes_of_rows rs)"
  by (induction item and rs rule: touched_touched_rows.induct) auto

lemma updateChildren_shape:
  "getName (fst (updateChildren item checked sc)) = getName item \<and>
   getPath (fst (updateChildren item checked sc)) = getPath item \<and>
   getNode (fst (updateChildren item checked sc)) = getNode item \<and>
   checkState (fst (updateChildren item checked sc)) = checkState item \<and>
   isEnabled (fst (updateChildren item checked sc)) = checked \<and>
   rows (fst (updateChildren item checked sc)) =
     (if checkState item = Checked then fst (updateChildren_rows (rows item) checked sc) else rows item)"
  by (cases item) (auto simp: split_beta Let_def)

lemma updateChildren_own_mask:
  "getNodeMask (getNode item) (snd (updateChildren item checked sc)) =
     (if checked \<and> checkState item = Checked then getPriorNodeMask item else 0)"
  by (cases item) (auto simp: split_beta Let_def getNodeMask_def setNodeMask_def)


lemma updateChildren_rows_length [simp]:
  "length (fst (updateChildren_rows rs checked sc)) = length rs"
  by (induction rs arbitrary: sc) (auto simp: split_beta)

lemma updateChildren_rows_nth:
  "j < length rs \<Longrightarrow>
   fst (updateChildren_rows rs checked sc) ! j =
     fst (updateChildren (rs ! j) checked (snd (updateChildren_rows (take j rs) checked sc)))"
proof (induction rs arbitrary: sc j)
  case Nil then show ?case by simp
next
  case (Cons r rs)
  show ?case
  proof (cases j)
    case 0 then show ?thesis by (simp add: split_beta)
  next
    case (Suc k)
    with Cons.prems have "k < length rs" by simp
    from Cons.IH[OF this] Suc show ?thesis by (simp add: split_beta)
  qed
qed


lemma nodes_of_rows_append [simp]:
  "nodes_of_rows (xs @ ys) = nodes_of_rows xs @ nodes_of_rows ys"
  by (induction xs) auto

lemma touched_rows_append [simp]:
  "touched_rows (xs @ ys) = touched_rows xs @ touched_rows ys"
  by (induction xs) auto


lemma nodes_of_unfold: "nodes_of item = getNode item # nodes_of_rows (rows item)"
  by (cases item) simp

lemma updateChildren_nodes_of:
  "nodes_of (fst (updateChildren item checked sc)) = nodes_of item"
  "nodes_of_rows (fst (updateChildren_rows rs checked sc)) = nodes_of_rows rs"
proof (induction item checked sc and rs checked sc rule: updateChildren_updateChildren_rows.induct)
  case (1 nm p nd e c pm rs checked sc)
  then show ?case by (auto simp: split_beta Let_def)
next
  case (2 checked sc)
  show ?case by simp
next
  case (3 child rest checked sc)
  obtain c' sc1 where u: "updateChildren child checked sc = (c', sc1)"
    by (cases "updateChildren child checked sc")
  from 3 have "nodes_of c' = nodes_of child" by (simp add: u)
  moreover from 3 have "nodes_of_rows (fst (updateChildren_rows rest checked sc1)) = nodes_of_rows rest"
    using u by simp
  ultimately show ?case by (simp add: u split_beta)
qed


lemma itemFromIndex_putItem:
  "itemFromIndex p rs = Some x \<Longrightarrow> itemFromIndex p (putItem p y rs) = Some y"
proof (induction p rs arbitrary: x rule: itemFromIndex.induct)
  case (1 rs) then show ?case by simp
next
  case (2 i rs) then show ?case by (simp split: if_splits)
next
  case (3 i j js rs)
  then show ?case by (cases "rs ! i") (auto split: if_splits simp: setRows_def)
qed

lemma itemFromIndex_child:
  "itemFromIndex p rs = Some P \<Longrightarrow> j < length (rows P) \<Longrightarrow>
   itemFromIndex (p @ [j]) rs = Some (rows P ! j)"
proof (induction p rs arbitrary: P rule: itemFromIndex.induct)
  case (1 rs) then show ?case by simp
next
  case (2 i rs) then show ?case by (simp split: if_splits)
next
  case (3 i j' js rs)
  then show ?case by (auto split: if_splits)
qed
lemma item_sel_simps [simp]:
  "getNode (setRows rs item) = getNode item"
  "getNode (setPriorNodeMask m item) = getNode item"
  "getNode (setCheckState cs item) = getNode item"
  "checkState (setRows rs item) = checkState item"
  "checkState (setPriorNodeMask m item) = checkState item"
  "checkState (setCheckState cs item) = cs"
  "isEnabled (setRows rs item) = isEnabled item"
  "isEnabled (setPriorNodeMask m item) = isEnabled item"
  "isEnabled (setCheckState cs item) = isEnabled item"
  "getPriorNodeMask (setRows rs item) = getPriorNodeMask item"
  "getPriorNodeMask (setPriorNodeMask m item) = m"
  "getPriorNodeMask (setCheckState cs item) = getPriorNodeMask item"
  "rows (setRows rs item) = rs"
  "rows (setPriorNodeMask m item) = rows item"
  "rows (setCheckState cs item) = rows item"
  by (cases item; simp add: setRows_def setPriorNodeMask_def setCheckState_def)+

lemma clicked_item_eq:
  "clicked_item item sc =
     (let r = updateChildren_rows (rows item) (checkState item = Checked)
                (setNodeMask (getNode item)
                   (if checkState item = Checked \<and> isEnabled item then getPriorNodeMask item else 0) sc)
      in (setRows (fst r)
            (if checkState item \<noteq> Checked \<and> isEnabled item
             then setPriorNodeMask (getNodeMask (getNode item) sc) item else item),
          snd r))"
  by (auto simp: clicked_item_def Let_def split_beta)

lemma updateChildren_False_zero:
  "getNodeMask n sc = 0 \<Longrightarrow> getNodeMask n (snd (updateChildren item False sc)) = 0"
  "getNodeMask n sc = 0 \<Longrightarrow> getNodeMask n (snd (updateChildren_rows rs False sc)) = 0"
proof (induction item "False" sc and rs "False" sc rule: updateChildren_updateChildren_rows.induct)
  case (1 nm p nd e c pm rs sc)
  then show ?case by (auto simp: split_beta Let_def getNodeMask_def setNodeMask_def)
next
  case (2 sc)
  then show ?case by simp
next
  case (3 child rest sc)
  obtain c' sc1 where u: "updateChildren child False sc = (c', sc1)"
    by (cases "updateChildren child False sc")
  from 3 have "getNodeMask n sc1 = 0" by (simp add: u)
  with 3 have "getNodeMask n (snd (updateChildren_rows rest False sc1)) = 0"
    using u by simp
  then show ?case by (simp add: u split_beta)
qed

lemma clicked_item_props:
  "getNode (fst (clicked_item item sc)) = getNode item"
  "checkState (fst (clicked_item item sc)) = checkState item"
  "isEnabled (fst (clicked_item item sc)) = isEnabled item"
  "getPriorNodeMask (fst (clicked_item item sc)) =
     (if checkState item \<noteq> Checked \<and> isEnabled item then getNodeMask (getNode item) sc
      else getPriorNodeMask item)"
  "rows (fst (clicked_item item sc)) =
     fst (updateChildren_rows (rows item) (checkState item = Checked)
           (setNodeMask (getNode item)
              (if checkState item = Checked \<and> isEnabled item then getPriorNodeMask item else 0) sc))"
  "snd (clicked_item item sc) =
     snd (updateChildren_rows (rows item) (checkState item = Checked)
           (setNodeMask (getNode item)
              (if checkState item = Checked \<and> isEnabled item then getPriorNodeMask item else 0) sc))"
  by (simp_all add: clicked_item_eq Let_def)

lemma clicked_item_own_mask_unchecked:
  assumes "checkState item \<noteq> Checked"
  shows "getNodeMask (getNode item) (snd (clicked_item item sc)) = 0"
  using assms by (simp add: clicked_item_props updateChildren_False_zero(2))

lemma clicked_item_own_mask_checked:
  assumes "checkState item = Checked" and "getNode item \<notin> set (nodes_of_rows (rows item))"
  shows "getNodeMask (getNode item) (snd (clicked_item item sc)) =
           (if isEnabled item then getPriorNodeMask item else 0)"
proof -
  from assms(2) have "getNode item \<notin> set (touched_rows (rows item))"
    using touched_subset(2) by blast
  then show ?thesis
    using assms(1)
    by (simp add: clicked_item_props updateChildren_frame(2) getNodeMask_def setNodeMask_def)
qed

lemma clicked_Inr:
  assumes "m_pOsgWidget tv = Some w" and "itemFromIndex index (m_pModel tv) = Some item"
  shows "clicked index tv sc =
      Inr (tv\<lparr>m_pModel := putItem index (fst (clicked_item item sc)) (m_pModel tv)\<rparr>,
           snd (clicked_item item sc))"
  using assms by (simp add: clicked_def split_beta)

lemma clicked_transition_Inr:
  assumes "m_pOsgWidget tv = Some w" and "itemFromIndex index (m_pModel tv) = Some item"
  shows "clicked_transition index cs tv sc =
      Inr (tv\<lparr>m_pModel := putItem index (fst (clicked_item (setCheckState cs item) sc))
                              (putItem index (setCheckState cs item) (m_pModel tv))\<rparr>,
           snd (clicked_item (setCheckState cs item) sc))"
proof -
  let ?tv = "tv\<lparr>m_pModel := setCheckStateAt index cs (m_pModel tv)\<rparr>"
  have m: "m_pModel ?tv = putItem index (setCheckState cs item) (m_pModel tv)"
    using assms(2) by (simp add: setCheckStateAt_def)
  have "itemFromIndex index (m_pModel ?tv) = Some (setCheckState cs item)"
    unfolding m using assms(2) by (rule itemFromIndex_putItem)
  moreover have "m_pOsgWidget ?tv = Some w" using assms(1) by simp
  ultimately have "clicked index ?tv sc =
      Inr (?tv\<lparr>m_pModel := putItem index (fst (clicked_item (setCheckState cs item) sc)) (m_pModel ?tv)\<rparr>,
           snd (clicked_item (setCheckState cs item) sc))"
    by (rule clicked_Inr[rotated])
  then show ?thesis unfolding clicked_transition_def by (simp add: m)
qed


lemma clicked_item_rows_length:
  "length (rows (fst (clicked_item item sc))) = length (rows item)"
  by (simp add: clicked_item_props)


lemma nodes_of_setCheckState [simp]: "nodes_of (setCheckState cs item) = nodes_of item"
  by (cases item) simp


lemma all_items_nodes:
  "map getNode (all_items item) = nodes_of item"
  "map getNode (all_items_rows rs) = nodes_of_rows rs"
  by (induction item and rs rule: all_items_all_items_rows.induct) auto

lemma below_unchecked_nodes:
  "set (map getNode (below_unchecked item)) \<subseteq> set (nodes_of_rows (rows item))"
  "set (map getNode (below_unchecked_rows rs)) \<subseteq> set (nodes_of_rows rs)"
proof (induction item and rs rule: below_unchecked_below_unchecked_rows.induct)
  case (1 n p nd e c pm rs)
  then show ?case using all_items_nodes(2)[of rs] by (auto simp del: set_map)
next
  case 2 show ?case by simp
next
  case (3 r rs)
  then show ?case by (auto simp: nodes_of_unfold[of r])
qed

lemma touched_below_unchecked_disjoint:
  "distinct (nodes_of item) \<Longrightarrow> set (touched item) \<inter> set (map getNode (below_unchecked item)) = {}"
  "distinct (nodes_of_rows rs) \<Longrightarrow> set (touched_rows rs) \<inter> set (map getNode (below_unchecked_rows rs)) = {}"
proof (induction item and rs rule: below_unchecked_below_unchecked_rows.induct)
  case (1 n p nd e c pm rs)
  have nd: "nd \<notin> set (nodes_of_rows rs)" and dr: "distinct (nodes_of_rows rs)"
    using 1(2) by simp_all
  show ?case
  proof (cases "c = Checked")
    case True
    have "set (map getNode (below_unchecked_rows rs)) \<subseteq> set (nodes_of_rows rs)"
      by (rule below_unchecked_nodes)
    with nd have "nd \<notin> set (map getNode (below_unchecked_rows rs))" by blast
    moreover have "set (touched_rows rs) \<inter> set (map getNode (below_unchecked_rows rs)) = {}"
      using 1(1)[OF True dr] .
    ultimately show ?thesis using True by (simp del: set_map)
  next
    case False
    have "set (map getNode (all_items_rows rs)) = set (nodes_of_rows rs)"
      by (simp only: all_items_nodes)
    with nd have "nd \<notin> set (map getNode (all_items_rows rs))" by blast
    then show ?thesis using False by (simp del: set_map)
  qed
next
  case 2 show ?case by simp
next
  case (3 r rs)
  have a: "set (touched r) \<subseteq> set (nodes_of r)" by (rule touched_subset)
  have b: "set (touched_rows rs) \<subseteq> set (nodes_of_rows rs)" by (rule touched_subset)
  have c: "set (map getNode (below_unchecked r)) \<subseteq> set (nodes_of r)"
    using below_unchecked_nodes(1)[of r] by (auto simp: nodes_of_unfold[of r])
  have d: "set (map getNode (below_unchecked_rows rs)) \<subseteq> set (nodes_of_rows rs)"
    by (rule below_unchecked_nodes)
  from 3 have "set (touched r) \<inter> set (map getNode (below_unchecked r)) = {}"
    and "set (touched_rows rs) \<inter> set (map getNode (below_unchecked_rows rs)) = {}"
    and "set (nodes_of r) \<inter> set (nodes_of_rows rs) = {}"
    by simp_all
  with a b c d show ?case by (simp del: set_map) blast
qed

lemma updateChildren_below_unchecked:
  "below_unchecked (fst (updateChildren item checked sc)) = below_unchecked item"
  "below_unchecked_rows (fst (updateChildren_rows rs checked sc)) = below_unchecked_rows rs"
proof (induction item checked sc and rs checked sc rule: updateChildren_updateChildren_rows.induct)
  case (1 nm p nd e c pm rs checked sc)
  then show ?case by (auto simp: split_beta Let_def)
next
  case (2 checked sc)
  show ?case by simp
next
  case (3 child rest checked sc)
  obtain c' sc1 where u: "updateChildren child checked sc = (c', sc1)"
    by (cases "updateChildren child checked sc")
  from 3 have "below_unchecked c' = below_unchecked child" by (simp add: u)
  moreover from 3 have "below_unchecked_rows (fst (updateChildren_rows rest checked sc1)) = below_unchecked_rows rest"
    using u by simp
  ultimately show ?case by (simp add: u split_beta)
qed

section \<open>Facts about the coordinator\<close>

text \<open>
  With the display thread of the source, the first \<open>add\<close> on a new coordinator sets up
  the window, the osg widget and the tree view and adds the node.
\<close>

lemma first_add_sets_up:
  "DisplayInterface_add (displayThread 0 scene1) ''a'' 1 True new_DisplayInterface scene1 =
     Some (Inr (True,
       \<lparr>m_pMainWindow = Some \<lparr>isVisible = True\<rparr>,
        m_pTreeView = Some \<lparr>m_pOsgWidget = Some \<lparr>rootGroup = 0\<rparr>,
           m_pModel = [d3DisplayItem ''All Displayed Items'' ''All Displayed Items'' 0 True Checked 7
                         [d3DisplayItem ''a'' ''a'' 1 True Checked 7 []]]\<rparr>,
        m_pOsgWidget_DI = Some \<lparr>rootGroup = 0\<rparr>, osgLocked = False,
        m_haveData = True, m_setupComplete = True, m_threadShouldRun = True\<rparr>,
       addChild 0 1 scene1))"
  by (simp add: DisplayInterface_add_def setupMainWindow_def displayThread_def new_DisplayInterface_def
      TreeView_add_def setOsgWidget_def new_TreeView_def new_d3DisplayItem_def add_leaf
      splitIndicator_def findChild_def createNewEntry_def appendRow_def asGroup_def
      getNodeMask_def scene1_def Let_def)

text \<open>
  With that display thread, \<open>setupMainWindow\<close> returns false only when it is entered with
  \<open>m_setupComplete\<close> set and no window.
\<close>

lemma displayThread_makes_window:
  "setupMainWindow (displayThread root sc) di = Some (ok, di') \<Longrightarrow>
     ok \<or> (m_pMainWindow di = None \<and> m_setupComplete di)"
  by (auto simp: setupMainWindow_def displayThread_def Let_def split: if_splits)

section \<open>Facts about the threads\<close>

lemma display_step_made_once: "made_once s \<Longrightarrow> display_step w s = Some s' \<Longrightarrow> made_once s'"
  unfolding made_once_def display_step_def
  by (cases "display_at s"; clarsimp simp: notify_all_def split: if_splits)

lemma display_step_complete_inv: "complete_inv s \<Longrightarrow> display_step w s = Some s' \<Longrightarrow> complete_inv s'"
  unfolding complete_inv_def all_made_def display_step_def
  by (cases "display_at s"; clarsimp simp: notify_all_def split: if_splits)

lemma caller_step_form:
  assumes "caller_step w i s = Some s'"
  shows "\<exists>pc' b m. s' = set_caller i pc' s \<or>
                   s' = set_caller i pc' (s\<lparr>shared := (shared s)\<lparr>m_haveData := b\<rparr>\<rparr>) \<or>
                   s' = set_caller i pc' (s\<lparr>m_mutex := m\<rparr>) \<or>
                   s' = set_caller i pc' (notify_all s)"
proof -
  obtain op pc where c: "callers s ! i = (op, pc)" by (cases "callers s ! i")
  from assms have i: "i < length (callers s)" by (simp add: caller_step_def split: if_splits)
  from assms c i show ?thesis
    unfolding caller_step_def
    by (cases pc; simp split: if_splits operation.splits; blast)
qed

lemma caller_step_frame:
  assumes "caller_step w i s = Some s'"
  shows "windows_made s' = windows_made s" "widgets_made s' = widgets_made s"
    "views_made s' = views_made s"
    "m_pMainWindow (shared s') = m_pMainWindow (shared s)"
    "m_pOsgWidget_DI (shared s') = m_pOsgWidget_DI (shared s)"
    "m_pTreeView (shared s') = m_pTreeView (shared s)"
    "m_setupComplete (shared s') = m_setupComplete (shared s)"
    "display_at s' = display_at s \<or> (display_at s = D_waiting \<and> display_at s' = D_woken)"
  using caller_step_form[OF assms]
  by (auto simp: set_caller_def notify_all_def split: if_splits)

lemma caller_step_made_once: "made_once s \<Longrightarrow> caller_step w i s = Some s' \<Longrightarrow> made_once s'"
  by (simp add: made_once_def caller_step_frame)

lemma complete_inv_frame:
  assumes inv: "complete_inv s"
    and w: "(m_pMainWindow (shared s') = None) = (m_pMainWindow (shared s) = None)"
    and g: "m_pOsgWidget_DI (shared s') = m_pOsgWidget_DI (shared s)"
    and v: "m_pTreeView (shared s') = m_pTreeView (shared s)"
    and c: "m_setupComplete (shared s') = m_setupComplete (shared s)"
    and d: "display_at s' = display_at s \<or> (display_at s = D_waiting \<and> display_at s' = D_woken)"
  shows "complete_inv s'"
proof -
  have am: "all_made s' = all_made s" by (simp add: all_made_def w g v)
  from d show ?thesis
  proof
    assume "display_at s' = display_at s"
    with inv show ?thesis by (simp add: complete_inv_def am w g c)
  next
    assume "display_at s = D_waiting \<and> display_at s' = D_woken"
    with inv show ?thesis by (simp add: complete_inv_def am w g c)
  qed
qed

lemma caller_step_complete_inv: "complete_inv s \<Longrightarrow> caller_step w i s = Some s' \<Longrightarrow> complete_inv s'"
  by (erule complete_inv_frame) (simp_all add: caller_step_frame)

lemma destructor_step_form:
  assumes "destructor_step s = Some s'"
  shows "\<exists>x m sh. (s' = s\<lparr>destructor_at := x\<rparr> \<or> s' = s\<lparr>m_mutex := m, destructor_at := x\<rparr> \<or>
            s' = (notify_all s)\<lparr>destructor_at := x\<rparr> \<or>
            (s' = s\<lparr>shared := sh, destructor_at := x\<rparr> \<or> s' = s\<lparr>shared := sh, m_mutex := m, destructor_at := x\<rparr>) \<and>
            (m_pMainWindow sh = None) = (m_pMainWindow (shared s) = None) \<and>
            m_pOsgWidget_DI sh = m_pOsgWidget_DI (shared s) \<and>
            m_pTreeView sh = m_pTreeView (shared s) \<and>
            m_setupComplete sh = m_setupComplete (shared s))"
proof (cases "destructor_at s")
  case X_idle with assms show ?thesis by (simp add: destructor_step_def)
next
  case X_start with assms show ?thesis by (simp add: destructor_step_def) blast
next
  case X_test_window with assms show ?thesis by (simp add: destructor_step_def) blast
next
  case X_lock with assms show ?thesis by (simp add: destructor_step_def split: if_splits) blast
next
  case X_close
  with assms have "s' = s\<lparr>shared := (shared s)\<lparr>m_pMainWindow :=
        map_option (\<lambda>mw. mw\<lparr>isVisible := False\<rparr>) (m_pMainWindow (shared s))\<rparr>,
      m_mutex := None, destructor_at := X_set_data\<rparr>"
    by (simp add: destructor_step_def)
  then show ?thesis by (intro exI[of _ X_set_data] exI[of _ None]
      exI[of _ "(shared s)\<lparr>m_pMainWindow := map_option (\<lambda>mw. mw\<lparr>isVisible := False\<rparr>) (m_pMainWindow (shared s))\<rparr>"]) simp
next
  case X_set_data
  with assms have "s' = s\<lparr>shared := (shared s)\<lparr>m_haveData := True\<rparr>, destructor_at := X_set_run\<rparr>"
    by (simp add: destructor_step_def)
  then show ?thesis
    by (intro exI[of _ X_set_run] exI[of _ None] exI[of _ "(shared s)\<lparr>m_haveData := True\<rparr>"]) simp
next
  case X_set_run
  with assms have "s' = s\<lparr>shared := (shared s)\<lparr>m_threadShouldRun := False\<rparr>, destructor_at := X_notify\<rparr>"
    by (simp add: destructor_step_def)
  then show ?thesis
    by (intro exI[of _ X_notify] exI[of _ None] exI[of _ "(shared s)\<lparr>m_threadShouldRun := False\<rparr>"]) simp
next
  case X_notify with assms show ?thesis by (simp add: destructor_step_def split: if_splits) blast+
next
  case X_join with assms show ?thesis by (simp add: destructor_step_def split: if_splits) blast
next
  case X_done with assms show ?thesis by (simp add: destructor_step_def)
qed

lemma destructor_step_frame:
  assumes "destructor_step s = Some s'"
  shows "windows_made s' = windows_made s" "widgets_made s' = widgets_made s"
    "views_made s' = views_made s"
    "(m_pMainWindow (shared s') = None) = (m_pMainWindow (shared s) = None)"
    "m_pOsgWidget_DI (shared s') = m_pOsgWidget_DI (shared s)"
    "m_pTreeView (shared s') = m_pTreeView (shared s)"
    "m_setupComplete (shared s') = m_setupComplete (shared s)"
    "display_at s' = display_at s \<or> (display_at s = D_waiting \<and> display_at s' = D_woken)"
  using destructor_step_form[OF assms]
  by (auto simp: notify_all_def split: if_splits)

lemma destructor_step_made_once:
  assumes "made_once s" and "destructor_step s = Some s'"
  shows "made_once s'"
proof -
  note f = destructor_step_frame[OF assms(2)]
  have "(case m_pMainWindow (shared s') of None \<Rightarrow> 0::nat | Some mw \<Rightarrow> 1) =
        (case m_pMainWindow (shared s) of None \<Rightarrow> 0 | Some mw \<Rightarrow> 1)"
    using f(4) by (cases "m_pMainWindow (shared s')"; cases "m_pMainWindow (shared s)") simp_all
  with assms(1) show ?thesis by (simp add: made_once_def f(1,2,3,5,6))
qed

lemma destructor_step_complete_inv:
  "complete_inv s \<Longrightarrow> destructor_step s = Some s' \<Longrightarrow> complete_inv s'"
  by (erule complete_inv_frame) (simp_all add: destructor_step_frame)

lemma step_inv:
  assumes "made_once s \<and> complete_inv s" and "thread_step w t s = Some s'"
  shows "made_once s' \<and> complete_inv s'"
proof (cases t)
  case Display
  with assms show ?thesis
    using display_step_made_once[of s w s'] display_step_complete_inv[of s w s'] by simp
next
  case (Caller i)
  with assms show ?thesis
    using caller_step_made_once[of s w i s'] caller_step_complete_inv[of s w i s'] by simp
next
  case Destructor
  with assms show ?thesis
    using destructor_step_made_once[of s s'] destructor_step_complete_inv[of s s'] by simp
qed

lemma reaches_inv:
  "reaches s s' \<Longrightarrow> made_once s \<and> complete_inv s \<Longrightarrow> made_once s' \<and> complete_inv s'"
proof (induction rule: reaches.induct)
  case here
  then show ?case by simp
next
  case (later s' spurious t s'')
  then show ?case using step_inv[of s' spurious t s''] by blast
qed

lemma started_inv: "made_once (started ops) \<and> complete_inv (started ops)"
  by (simp add: made_once_def complete_inv_def all_made_def started_def new_DisplayInterface_def)

text \<open>
  Whatever the operations and the schedule, each of the window, the osg widget and the
  tree view is made at most once, and \<open>m_setupComplete\<close> holds only when all three have
  been made.
\<close>

lemma setup_completes_once:
  assumes "reaches (started ops) s"
  shows "windows_made s \<le> 1 \<and> widgets_made s \<le> 1 \<and> views_made s \<le> 1 \<and>
         (m_setupComplete (shared s) \<longrightarrow>
            windows_made s = 1 \<and> widgets_made s = 1 \<and> views_made s = 1 \<and>
            m_pMainWindow (shared s) \<noteq> None \<and> m_pOsgWidget_DI (shared s) \<noteq> None \<and>
            m_pTreeView (shared s) \<noteq> None)"
proof -
  from reaches_inv[OF assms started_inv] have m: "made_once s" and c: "complete_inv s" by simp_all
  from m have "windows_made s \<le> 1" "widgets_made s \<le> 1" "views_made s \<le> 1"
    by (simp_all add: made_once_def split: option.splits)
  moreover have "windows_made s = 1 \<and> widgets_made s = 1 \<and> views_made s = 1 \<and>
            m_pMainWindow (shared s) \<noteq> None \<and> m_pOsgWidget_DI (shared s) \<noteq> None \<and>
            m_pTreeView (shared s) \<noteq> None" if "m_setupComplete (shared s)"
  proof -
    from c that have "all_made s" by (simp add: complete_inv_def)
    with m show ?thesis by (auto simp: all_made_def made_once_def)
  qed
  ultimately show ?thesis by blast
qed

text \<open>
  \<open>lock\<close> as the first operation: it notifies the display thread, which finds
  \<open>m_haveData\<close> false and waits again, and then waits for \<open>m_setupComplete\<close> itself; no
  thread can take a step.
\<close>

lemma lock_first_hangs:
  "run (replicate 4 Display @ replicate 5 (Caller 0) @ replicate 3 Display) (started [Op_lock]) =
       Some \<lparr>shared = new_DisplayInterface, m_mutex = None, display_at = D_waiting,
             callers = [(Op_lock, C_waiting)], destructor_at = X_idle,
             windows_made = 0, widgets_made = 0, views_made = 0\<rparr> \<and>
   next_states \<lparr>shared = new_DisplayInterface, m_mutex = None, display_at = D_waiting,
             callers = [(Op_lock, C_waiting)], destructor_at = X_idle,
             windows_made = 0, widgets_made = 0, views_made = 0\<rparr> = []"
  by code_simp

text \<open>
  When the display thread is already blocked in \<open>wait\<close> as the destructor starts, and no
  wait returns without a notification, every run ends with the display thread returned
  and joined and nothing made.
\<close>

lemma notified_teardown_completes:
  "all_runs_end 9 torn_down parked_at_teardown"
  by code_simp

section \<open>Path round trip\<close>

text \<open>
  Claim C1. In a tree view that has only its top entry, over a root group, adding a node
  under the path \<open>A::B::leaf\<close> (\<open>A\<close> and \<open>B\<close> segments, \<open>leaf\<close> without \<open>::\<close>) succeeds and leaves exactly
  the chain top entry, \<open>A\<close>, \<open>B\<close>, \<open>leaf\<close>: \<open>A\<close> and \<open>B\<close> are new items over new groups,
  and \<open>leaf\<close> holds the node. Adding another node under the same path then succeeds,
  changes nothing in the items but the node of \<open>leaf\<close> (its check state stays), and the
  new node gets the mask the old node had.
\<close>

theorem add_path_round_trip:
  assumes A: "segment A" and B: "segment B" and L: "str_find leaf splitIndicator = None"
    and root: "asGroup (rootGroup w) sc" and rootlt: "rootGroup w < nextNode sc"
    and nodeX: "nodeX < nextNode sc"
  shows "\<exists>sc1.
     TreeView_add (A @ ''::'' @ B @ ''::'' @ leaf) nodeX showNode addToDisplay
         (setOsgWidget (Some w) new_TreeView sc) sc
       = Inr (True,
              \<lparr>m_pOsgWidget = Some w,
               m_pModel =
                 [d3DisplayItem ''All Displayed Items'' ''All Displayed Items'' (rootGroup w) True Checked
                    (getNodeMask (rootGroup w) sc)
                    [d3DisplayItem A (A @ ''::'' @ B @ ''::'' @ leaf) (nextNode sc) True Checked (- 1)
                       [d3DisplayItem B (A @ ''::'' @ B @ ''::'' @ leaf) (Suc (nextNode sc)) True Checked (- 1)
                          [d3DisplayItem leaf (A @ ''::'' @ B @ ''::'' @ leaf) nodeX True
                             (if showNode then Checked else Unchecked) (getNodeMask nodeX sc) []]]]]\<rparr>,
              sc1)
     \<and> asGroup (nextNode sc) sc1 \<and> asGroup (Suc (nextNode sc)) sc1
     \<and> (\<forall>nodeY showNode' addToDisplay'. \<exists>sc2.
          TreeView_add (A @ ''::'' @ B @ ''::'' @ leaf) nodeY showNode' addToDisplay'
              \<lparr>m_pOsgWidget = Some w,
               m_pModel =
                 [d3DisplayItem ''All Displayed Items'' ''All Displayed Items'' (rootGroup w) True Checked
                    (getNodeMask (rootGroup w) sc)
                    [d3DisplayItem A (A @ ''::'' @ B @ ''::'' @ leaf) (nextNode sc) True Checked (- 1)
                       [d3DisplayItem B (A @ ''::'' @ B @ ''::'' @ leaf) (Suc (nextNode sc)) True Checked (- 1)
                          [d3DisplayItem leaf (A @ ''::'' @ B @ ''::'' @ leaf) nodeX True
                             (if showNode then Checked else Unchecked) (getNodeMask nodeX sc) []]]]]\<rparr>
              sc1
            = Inr (True,
                   \<lparr>m_pOsgWidget = Some w,
                    m_pModel =
                      [d3DisplayItem ''All Displayed Items'' ''All Displayed Items'' (rootGroup w) True Checked
                         (getNodeMask (rootGroup w) sc)
                         [d3DisplayItem A (A @ ''::'' @ B @ ''::'' @ leaf) (nextNode sc) True Checked (- 1)
                            [d3DisplayItem B (A @ ''::'' @ B @ ''::'' @ leaf) (Suc (nextNode sc)) True Checked (- 1)
                               [d3DisplayItem leaf (A @ ''::'' @ B @ ''::'' @ leaf) nodeY True
                                  (if showNode then Checked else Unchecked) (getNodeMask nodeX sc) []]]]]\<rparr>,
                   sc2)
          \<and> getNodeMask nodeY sc2 = getNodeMask nodeX sc1)"
proof -
  define full where "full = A @ ''::'' @ B @ ''::'' @ leaf"
  define topEntry where "topEntry = d3DisplayItem ''All Displayed Items'' ''All Displayed Items'' (rootGroup w)
     True Checked (getNodeMask (rootGroup w) sc) []"
  define cs where "cs = (if showNode then Checked else Unchecked)"
  define chain where "chain = (\<lambda>n. d3DisplayItem ''All Displayed Items'' ''All Displayed Items''
      (rootGroup w) True Checked (getNodeMask (rootGroup w) sc)
      [d3DisplayItem A full (nextNode sc) True Checked (- 1)
         [d3DisplayItem B full (Suc (nextNode sc)) True Checked (- 1)
            [d3DisplayItem leaf full n True cs (getNodeMask nodeX sc) []]]])"
  have tv0: "setOsgWidget (Some w) new_TreeView sc = \<lparr>m_pOsgWidget = Some w, m_pModel = [topEntry]\<rparr>"
    by (simp add: setOsgWidget_def new_TreeView_def new_d3DisplayItem_def topEntry_def)
  from first_add[OF A B L, of topEntry sc nodeX full showNode addToDisplay]
  obtain sc1 where one: "add full full nodeX True showNode addToDisplay topEntry sc = Inr (True, chain nodeX, sc1)"
    and gA: "asGroup (nextNode sc) sc1" and gB: "asGroup (Suc (nextNode sc)) sc1"
    using root rootlt nodeX by (auto simp: topEntry_def full_def chain_def cs_def)
  have first: "TreeView_add full nodeX showNode addToDisplay (setOsgWidget (Some w) new_TreeView sc) sc
      = Inr (True, \<lparr>m_pOsgWidget = Some w, m_pModel = [chain nodeX]\<rparr>, sc1)"
    unfolding tv0 by (simp add: TreeView_add_def one)
  have second: "\<exists>sc2. TreeView_add full nodeY showNode' addToDisplay'
        \<lparr>m_pOsgWidget = Some w, m_pModel = [chain nodeX]\<rparr> sc1
      = Inr (True, \<lparr>m_pOsgWidget = Some w, m_pModel = [chain nodeY]\<rparr>, sc2)
      \<and> getNodeMask nodeY sc2 = getNodeMask nodeX sc1" for nodeY showNode' addToDisplay'
  proof -
    have "\<exists>sc2. add full full nodeY True showNode' addToDisplay' (chain nodeX) sc1
        = Inr (True, chain nodeY, sc2) \<and> getNodeMask nodeY sc2 = getNodeMask nodeX sc1"
      unfolding chain_def by (rule second_add[OF A B L full_def gA gB])
    then obtain sc2 where "add full full nodeY True showNode' addToDisplay' (chain nodeX) sc1
        = Inr (True, chain nodeY, sc2)" and "getNodeMask nodeY sc2 = getNodeMask nodeX sc1"
      by blast
    then show ?thesis by (simp add: TreeView_add_def)
  qed
  show ?thesis
    using first gA gB second unfolding chain_def full_def cs_def by blast
qed

theorem add_path_round_trip_witness:
  "segment ''A'' \<and> segment ''B'' \<and> str_find ''leaf'' splitIndicator = None \<and>
   asGroup (rootGroup widget0) scene1 \<and> rootGroup widget0 < nextNode scene1 \<and> 1 < nextNode scene1 \<and>
   (\<exists>sc1 tv1. TreeView_add ''A::B::leaf'' 1 True True treeView1 scene1 = Inr (True, tv1, sc1))"
proof -
  have h: "segment ''A''" "segment ''B''" "str_find ''leaf'' splitIndicator = None"
    "asGroup (rootGroup widget0) scene1" "rootGroup widget0 < nextNode scene1" "1 < nextNode scene1"
    by (simp_all add: asGroup_def widget0_def scene1_def segment_def splitIndicator_def)
  from add_path_round_trip [OF h, of True True]
  have "\<exists>sc1 tv1. TreeView_add ''A::B::leaf'' 1 True True treeView1 scene1 = Inr (True, tv1, sc1)"
    unfolding treeView1_def by simp blast
  with h show ?thesis by blast
qed

section \<open>Adding under the name of an existing group\<close>

text \<open>
  Claim C3 says that after a node has been added under \<open>X::Y\<close>, adding another node under
  \<open>X\<close> is rejected and changes nothing. It is not: in the empty view, after node 1 has
  been added under \<open>X::Y\<close> (the only row of the top entry is then \<open>X\<close>, over the new group
  3 that is the only child of the root group), adding node 2 under \<open>X\<close> returns true, the
  item \<open>X\<close> then holds node 2, and node 2 has replaced the group among the children of the
  root group.
\<close>

theorem add_over_group_counterexample:
  "\<not> isl added_XY \<and> fst (projr added_XY) = True \<and>
   map getName (rows (hd (m_pModel (fst (snd (projr added_XY)))))) = [''X''] \<and>
   map getNode (rows (hd (m_pModel (fst (snd (projr added_XY)))))) = [3] \<and>
   children (nodes (snd (snd (projr added_XY))) 0) = [3] \<and>
   \<not> isl (TreeView_add ''X'' 2 True True (fst (snd (projr added_XY))) (snd (snd (projr added_XY)))) \<and>
   fst (projr (TreeView_add ''X'' 2 True True (fst (snd (projr added_XY))) (snd (snd (projr added_XY)))))
     = True \<and>
   map getNode (rows (hd (m_pModel (fst (snd (projr
      (TreeView_add ''X'' 2 True True (fst (snd (projr added_XY))) (snd (snd (projr added_XY)))))))))) = [2] \<and>
   children (nodes (snd (snd (projr
      (TreeView_add ''X'' 2 True True (fst (snd (projr added_XY))) (snd (snd (projr added_XY))))))) 0) = [2]"
  unfolding added_XY_def by code_simp

text \<open>
  Claim C3, amended. Let the top entry of the view have a row named \<open>X\<close>. Adding a node
  under \<open>X\<close> (a name without \<open>::\<close>) returns true and is a replacement, also when \<open>X\<close> is a
  group with rows of its own, as after an add under \<open>X::Y\<close>: the item \<open>X\<close> keeps its name,
  path, check state, prior mask and rows, holds the new node and is enabled; the new node
  gets the mask of the old node; no node but the new node and the root group changes (so
  the old group keeps its children in the scene); and the children of the root group are
  the old ones without (the first occurrence of) the old node and with the new node at
  the end when \<open>addToDisplay\<close> is set, the old ones when it is not. What is rejected is
  the opposite order: when the node of \<open>X\<close> is no group, adding a node under \<open>X::Y\<close>
  returns false and changes neither the view nor the scene.
\<close>

theorem add_over_group_replaces:
  assumes w: "m_pOsgWidget tv = Some w"
    and model: "m_pModel tv = topEntry # rest"
    and found: "findChild topEntry X = Some i"
  shows "(str_find X splitIndicator = None \<and> asGroup (getNode topEntry) sc \<longrightarrow>
     (\<exists>sc'.
        TreeView_add X node showNode addToDisplay tv sc =
          Inr (True,
               tv\<lparr>m_pModel :=
                    setRows ((rows topEntry)[i := setEnabled True (setNode node (rows topEntry ! i))]) topEntry
                    # rest\<rparr>,
               sc') \<and>
        getNodeMask node sc' = getNodeMask (getNode (rows topEntry ! i)) sc \<and>
        (\<forall>n. n \<noteq> node \<and> n \<noteq> getNode topEntry \<longrightarrow> nodes sc' n = nodes sc n) \<and>
        children (nodes sc' (getNode topEntry)) =
          (if addToDisplay
           then remove1 (getNode (rows topEntry ! i)) (children (nodes sc (getNode topEntry))) @ [node]
           else children (nodes sc (getNode topEntry))))) \<and>
   (segment X \<and> \<not> asGroup (getNode (rows topEntry ! i)) sc \<longrightarrow>
      TreeView_add (X @ ''::'' @ Y) node showNode addToDisplay tv sc = Inr (False, tv, sc))"
proof (intro conjI impI)
  assume "str_find X splitIndicator = None \<and> asGroup (getNode topEntry) sc"
  then have X: "str_find X splitIndicator = None" and grp: "asGroup (getNode topEntry) sc"
    by simp_all
  define old where "old = getNode (rows topEntry ! i)"
  define sc1 where "sc1 = setNodeMask node (getNodeMask old sc) sc"
  define sc' where "sc' = (if addToDisplay
      then addChild (getNode topEntry) node (removeChild (getNode topEntry) old sc1) else sc1)"
  have "replaceNode i node True addToDisplay topEntry sc =
      Inr (True, setRows ((rows topEntry)[i := setEnabled True (setNode node (rows topEntry ! i))]) topEntry, sc')"
    using grp by (cases "rows topEntry ! i") (simp add: replaceNode_def Let_def sc'_def sc1_def old_def)
  then have "add X X node True showNode addToDisplay topEntry sc =
      Inr (True, setRows ((rows topEntry)[i := setEnabled True (setNode node (rows topEntry ! i))]) topEntry, sc')"
    by (simp add: add_leaf[OF X] found)
  then have "TreeView_add X node showNode addToDisplay tv sc =
       Inr (True,
            tv\<lparr>m_pModel :=
                 setRows ((rows topEntry)[i := setEnabled True (setNode node (rows topEntry ! i))]) topEntry
                 # rest\<rparr>,
            sc')"
    by (simp add: TreeView_add_def w model)
  moreover have "getNodeMask node sc' = getNodeMask old sc"
    by (simp add: sc'_def sc1_def)
  moreover have "\<forall>n. n \<noteq> node \<and> n \<noteq> getNode topEntry \<longrightarrow> nodes sc' n = nodes sc n"
    by (simp add: sc'_def sc1_def setNodeMask_def addChild_def removeChild_def)
  moreover have "children (nodes sc' (getNode topEntry)) =
       (if addToDisplay then remove1 old (children (nodes sc (getNode topEntry))) @ [node]
        else children (nodes sc (getNode topEntry)))"
    by (simp add: sc'_def sc1_def)
  ultimately show "\<exists>sc'.
        TreeView_add X node showNode addToDisplay tv sc =
          Inr (True,
               tv\<lparr>m_pModel :=
                    setRows ((rows topEntry)[i := setEnabled True (setNode node (rows topEntry ! i))]) topEntry
                    # rest\<rparr>,
               sc') \<and>
        getNodeMask node sc' = getNodeMask (getNode (rows topEntry ! i)) sc \<and>
        (\<forall>n. n \<noteq> node \<and> n \<noteq> getNode topEntry \<longrightarrow> nodes sc' n = nodes sc n) \<and>
        children (nodes sc' (getNode topEntry)) =
          (if addToDisplay
           then remove1 (getNode (rows topEntry ! i)) (children (nodes sc (getNode topEntry))) @ [node]
           else children (nodes sc (getNode topEntry)))"
    unfolding old_def by blast
next
  assume "segment X \<and> \<not> asGroup (getNode (rows topEntry ! i)) sc"
  then show "TreeView_add (X @ ''::'' @ Y) node showNode addToDisplay tv sc = Inr (False, tv, sc)"
    using add_through_non_group_rejected[OF _ w model found] by blast
qed

theorem add_over_group_replaces_witness:
  "m_pOsgWidget familyView = Some widget0 \<and>
   m_pModel familyView =
     d3DisplayItem ''All Displayed Items'' ''All Displayed Items'' 0 True Checked 7 [family_P] # [] \<and>
   findChild (d3DisplayItem ''All Displayed Items'' ''All Displayed Items'' 0 True Checked 7 [family_P]) ''P''
     = Some 0 \<and>
   str_find ''P'' splitIndicator = None \<and> asGroup 0 scene0 \<and>
   segment ''P'' \<and> \<not> asGroup 1 scene1 \<and>
   (\<exists>tv' sc'. TreeView_add ''P'' 3 True True familyView scene0 = Inr (True, tv', sc') \<and>
      map getNode (rows (hd (m_pModel tv'))) = [3] \<and>
      map rows (rows (hd (m_pModel tv'))) = [[family_C1, family_C2]] \<and>
      children (nodes sc' 0) = [3] \<and> nodes sc' 1 = nodes scene0 1) \<and>
   TreeView_add (''P'' @ ''::'' @ ''Q'') 2 True True familyView scene1 = Inr (False, familyView, scene1)"
proof -
  let ?topEntry = "d3DisplayItem ''All Displayed Items'' ''All Displayed Items'' 0 True Checked 7 [family_P]"
  have h: "m_pOsgWidget familyView = Some widget0"
    "m_pModel familyView = ?topEntry # []" "findChild ?topEntry ''P'' = Some 0"
    by (simp_all add: familyView_def findChild_def family_P_def)
  have a: "str_find ''P'' splitIndicator = None" "asGroup (getNode ?topEntry) scene0"
    by (simp_all add: asGroup_def scene0_def splitIndicator_def)
  have b: "segment ''P''" "\<not> asGroup (getNode (rows ?topEntry ! 0)) scene1"
    by (simp_all add: segment_def splitIndicator_def asGroup_def scene1_def family_P_def)
  from add_over_group_replaces [OF h, of scene0 3 True True] a
  obtain sc' where r: "TreeView_add ''P'' 3 True True familyView scene0 =
       Inr (True, familyView\<lparr>m_pModel :=
                 setRows ((rows ?topEntry)[0 := setEnabled True (setNode 3 (rows ?topEntry ! 0))]) ?topEntry
                 # []\<rparr>, sc')"
    and c: "children (nodes sc' (getNode ?topEntry)) =
        remove1 (getNode (rows ?topEntry ! 0)) (children (nodes scene0 (getNode ?topEntry))) @ [3]"
    and f: "\<forall>n. n \<noteq> 3 \<and> n \<noteq> getNode ?topEntry \<longrightarrow> nodes sc' n = nodes scene0 n"
    by auto
  from c have "children (nodes sc' 0) = [3]"
    by (simp add: family_P_def scene0_def)
  moreover from f have "nodes sc' 1 = nodes scene0 1" by simp
  ultimately have one: "\<exists>tv' sc'. TreeView_add ''P'' 3 True True familyView scene0 = Inr (True, tv', sc') \<and>
      map getNode (rows (hd (m_pModel tv'))) = [3] \<and>
      map rows (rows (hd (m_pModel tv'))) = [[family_C1, family_C2]] \<and>
      children (nodes sc' 0) = [3] \<and> nodes sc' 1 = nodes scene0 1"
    using r by (simp add: family_P_def)
  from add_over_group_replaces [OF h, of scene1 2 True True "''Q''"] b
  have two: "TreeView_add (''P'' @ ''::'' @ ''Q'') 2 True True familyView scene1 = Inr (False, familyView, scene1)"
    by blast
  have "asGroup 0 scene0" "\<not> asGroup 1 scene1"
    using a(2) b(2) by (simp_all add: family_P_def)
  with h a(1) b(1) one two show ?thesis by blast
qed

section \<open>What a click does to the mask of the item\<close>

text \<open>
  Claim C5. \<open>clicked\<close> on an item that is checked leaves the remembered prior mask as it
  is and sets the mask of the item's node to the prior mask when the item is enabled, to
  zero when it is disabled. \<open>clicked\<close> on an item that is not checked stores the mask
  the node had as the new prior mask exactly when the item is enabled, and the node's
  mask is zero afterwards. For the checked item the mask is stated for an item whose
  node is not also the node of an item below it: the walk over the rows comes after.
\<close>

theorem clicked_sets_mask:
  assumes "m_pOsgWidget tv = Some w" and "itemFromIndex index (m_pModel tv) = Some item"
  shows "\<exists>tv' sc' item'.
     clicked index tv sc = Inr (tv', sc') \<and>
     itemFromIndex index (m_pModel tv') = Some item' \<and>
     (checkState item = Checked \<longrightarrow>
        getPriorNodeMask item' = getPriorNodeMask item \<and>
        (getNode item \<notin> set (nodes_of_rows (rows item)) \<longrightarrow>
           getNodeMask (getNode item) sc' = (if isEnabled item then getPriorNodeMask item else 0))) \<and>
     (checkState item \<noteq> Checked \<longrightarrow>
        getPriorNodeMask item' =
          (if isEnabled item then getNodeMask (getNode item) sc else getPriorNodeMask item) \<and>
        getNodeMask (getNode item) sc' = 0)"
proof -
  let ?item' = "fst (clicked_item item sc)" and ?sc' = "snd (clicked_item item sc)"
  let ?tv' = "tv\<lparr>m_pModel := putItem index ?item' (m_pModel tv)\<rparr>"
  have "clicked index tv sc = Inr (?tv', ?sc')"
    using assms by (rule clicked_Inr)
  moreover have "itemFromIndex index (m_pModel ?tv') = Some ?item'"
    using itemFromIndex_putItem[OF assms(2)] by simp
  moreover have "checkState item = Checked \<longrightarrow> getPriorNodeMask ?item' = getPriorNodeMask item"
    by (simp add: clicked_item_props)
  moreover have "checkState item = Checked \<longrightarrow> getNode item \<notin> set (nodes_of_rows (rows item)) \<longrightarrow>
           getNodeMask (getNode item) ?sc' = (if isEnabled item then getPriorNodeMask item else 0)"
    using clicked_item_own_mask_checked by blast
  moreover have "checkState item \<noteq> Checked \<longrightarrow> getPriorNodeMask ?item' =
          (if isEnabled item then getNodeMask (getNode item) sc else getPriorNodeMask item)"
    by (simp add: clicked_item_props)
  moreover have "checkState item \<noteq> Checked \<longrightarrow> getNodeMask (getNode item) ?sc' = 0"
    using clicked_item_own_mask_unchecked by blast
  ultimately show ?thesis by blast
qed

theorem clicked_sets_mask_witness:
  "m_pOsgWidget familyView = Some widget0 \<and>
   itemFromIndex [0, 0] (m_pModel familyView) = Some family_P \<and>
   checkState family_P = Checked \<and> getNode family_P \<notin> set (nodes_of_rows (rows family_P)) \<and>
   (\<exists>tv' sc'. clicked [0, 0] familyView scene0 = Inr (tv', sc') \<and> getNodeMask 1 sc' = 7) \<and>
   itemFromIndex [0, 0, 0] (m_pModel familyView) = Some family_C1 \<and>
   checkState family_C1 \<noteq> Checked \<and>
   (\<exists>tv' sc' item'. clicked [0, 0, 0] familyView scene0 = Inr (tv', sc') \<and>
      itemFromIndex [0, 0, 0] (m_pModel tv') = Some item' \<and>
      getPriorNodeMask item' = 0 \<and> getNodeMask 2 sc' = 0)"
proof -
  have h: "m_pOsgWidget familyView = Some widget0"
    "itemFromIndex [0, 0] (m_pModel familyView) = Some family_P"
    by (simp_all add: familyView_def)
  have c: "checkState family_P = Checked" "getNode family_P \<notin> set (nodes_of_rows (rows family_P))"
    "isEnabled family_P" "getPriorNodeMask family_P = 7" "getNode family_P = 1"
    by (simp_all add: family_P_def family_C1_def family_C2_def)
  from clicked_sets_mask [OF h, of scene0] c
  have one: "\<exists>tv' sc'. clicked [0, 0] familyView scene0 = Inr (tv', sc') \<and> getNodeMask 1 sc' = 7"
    by auto
  have k: "itemFromIndex [0, 0, 0] (m_pModel familyView) = Some family_C1"
    by (simp add: familyView_def family_P_def)
  have u: "checkState family_C1 \<noteq> Checked" "isEnabled family_C1" "getNode family_C1 = 2"
    "getNodeMask 2 scene0 = 0"
    by (simp_all add: family_C1_def scene0_def getNodeMask_def)
  from clicked_sets_mask [OF h(1) k, of scene0] u
  have two: "\<exists>tv' sc' item'. clicked [0, 0, 0] familyView scene0 = Inr (tv', sc') \<and>
      itemFromIndex [0, 0, 0] (m_pModel tv') = Some item' \<and>
      getPriorNodeMask item' = 0 \<and> getNodeMask 2 sc' = 0"
    by auto
  from h c(1,2) one k u(1) two show ?thesis by blast
qed

section \<open>Unchecking and rechecking a parent\<close>




section \<open>Children of an unchecked parent are disabled\<close>

text \<open>
  Claim C9. \<open>updateChildren\<close> leaves the item it is called on enabled exactly when its
  argument \<open>checked\<close> is true. So after a click on an item \<open>P\<close> of the view, every row of
  \<open>P\<close> is enabled exactly when \<open>P\<close> is checked; and after the click that unchecks \<open>P\<close>, the
  click that checks a row of \<open>P\<close> leaves the node of that row with mask zero (for a row
  whose node is not also the node of an item below it).
\<close>

theorem updateChildren_disables_children:
  assumes w: "m_pOsgWidget tv = Some w"
    and P: "itemFromIndex p (m_pModel tv) = Some P"
  shows "isEnabled (fst (updateChildren item checked sc)) = checked \<and>
    (\<exists>tv1 sc1.
       clicked_transition p cs tv sc = Inr (tv1, sc1) \<and>
       (\<forall>k < length (rows P). \<exists>c.
          itemFromIndex (p @ [k]) (m_pModel tv1) = Some c \<and> isEnabled c = (cs = Checked)) \<and>
       (cs = Unchecked \<longrightarrow>
          (\<forall>k < length (rows P).
             getNode (rows P ! k) \<notin> set (nodes_of_rows (rows (rows P ! k))) \<longrightarrow>
             (\<exists>tv2 sc2.
                clicked_transition (p @ [k]) Checked tv1 sc1 = Inr (tv2, sc2) \<and>
                getNodeMask (getNode (rows P ! k)) sc2 = 0))))"
proof -
  define Pu where "Pu = setCheckState cs P"
  define P1 where "P1 = fst (clicked_item Pu sc)"
  define sc1 where "sc1 = snd (clicked_item Pu sc)"
  define tv1 where "tv1 = tv\<lparr>m_pModel := putItem p P1 (putItem p Pu (m_pModel tv))\<rparr>"
  have t1: "clicked_transition p cs tv sc = Inr (tv1, sc1)"
    unfolding tv1_def P1_def sc1_def Pu_def using w P by (rule clicked_transition_Inr)
  have "itemFromIndex p (putItem p Pu (m_pModel tv)) = Some Pu"
    using P by (rule itemFromIndex_putItem)
  then have P1: "itemFromIndex p (m_pModel tv1) = Some P1"
    unfolding tv1_def by (simp add: itemFromIndex_putItem)
  have w1: "m_pOsgWidget tv1 = Some w" by (simp add: tv1_def w)
  have len1: "length (rows P1) = length (rows P)"
    unfolding P1_def by (simp add: clicked_item_rows_length Pu_def)
  have rows1: "rows P1 = fst (updateChildren_rows (rows P) (cs = Checked)
       (setNodeMask (getNode P) (if cs = Checked \<and> isEnabled P then getPriorNodeMask P else 0) sc))"
    unfolding P1_def Pu_def by (simp add: clicked_item_props)
  have child: "itemFromIndex (p @ [k]) (m_pModel tv1) = Some (rows P1 ! k)"
    and en: "isEnabled (rows P1 ! k) = (cs = Checked)"
    and nd: "getNode (rows P1 ! k) = getNode (rows P ! k)"
    and below: "nodes_of_rows (rows (rows P1 ! k)) = nodes_of_rows (rows (rows P ! k))"
    if k: "k < length (rows P)" for k
  proof -
    show "itemFromIndex (p @ [k]) (m_pModel tv1) = Some (rows P1 ! k)"
      using P1 k len1 by (simp add: itemFromIndex_child)
    have nth: "rows P1 ! k = fst (updateChildren (rows P ! k) (cs = Checked)
        (snd (updateChildren_rows (take k (rows P)) (cs = Checked)
           (setNodeMask (getNode P) (if cs = Checked \<and> isEnabled P then getPriorNodeMask P else 0) sc))))"
      unfolding rows1 using k by (rule updateChildren_rows_nth)
    show "isEnabled (rows P1 ! k) = (cs = Checked)" and "getNode (rows P1 ! k) = getNode (rows P ! k)"
      unfolding nth by (simp_all add: updateChildren_shape)
    have "nodes_of (rows P1 ! k) = nodes_of (rows P ! k)"
      unfolding nth by (rule updateChildren_nodes_of(1))
    then show "nodes_of_rows (rows (rows P1 ! k)) = nodes_of_rows (rows (rows P ! k))"
      by (simp add: nodes_of_unfold[of "rows P1 ! k"] nodes_of_unfold[of "rows P ! k"])
  qed
  have again: "\<exists>tv2 sc2. clicked_transition (p @ [k]) Checked tv1 sc1 = Inr (tv2, sc2) \<and>
                getNodeMask (getNode (rows P ! k)) sc2 = 0"
    if k: "k < length (rows P)" and u: "cs = Unchecked"
      and a: "getNode (rows P ! k) \<notin> set (nodes_of_rows (rows (rows P ! k)))" for k
  proof -
    let ?c = "setCheckState Checked (rows P1 ! k)"
    have "clicked_transition (p @ [k]) Checked tv1 sc1 =
      Inr (tv1\<lparr>m_pModel := putItem (p @ [k]) (fst (clicked_item ?c sc1))
                              (putItem (p @ [k]) ?c (m_pModel tv1))\<rparr>,
           snd (clicked_item ?c sc1))"
      using w1 child[OF k] by (rule clicked_transition_Inr)
    moreover have "getNodeMask (getNode ?c) (snd (clicked_item ?c sc1)) =
        (if isEnabled ?c then getPriorNodeMask ?c else 0)"
      using a by (intro clicked_item_own_mask_checked) (simp_all add: nd[OF k] below[OF k])
    then have "getNodeMask (getNode (rows P ! k)) (snd (clicked_item ?c sc1)) = 0"
      using en[OF k] u by (simp add: nd[OF k])
    ultimately show ?thesis by blast
  qed
  have "isEnabled (fst (updateChildren item checked sc)) = checked"
    by (simp add: updateChildren_shape)
  then show ?thesis
    using t1 child en again by blast
qed

theorem updateChildren_disables_children_witness:
  "m_pOsgWidget familyView = Some widget0 \<and>
   itemFromIndex [0, 0] (m_pModel familyView) = Some family_P \<and>
   1 < length (rows family_P) \<and>
   getNode (rows family_P ! 1) \<notin> set (nodes_of_rows (rows (rows family_P ! 1))) \<and>
   (\<exists>tv1 sc1 tv2 sc2 c.
      clicked_transition [0, 0] Unchecked familyView scene0 = Inr (tv1, sc1) \<and>
      itemFromIndex ([0, 0] @ [1]) (m_pModel tv1) = Some c \<and> \<not> isEnabled c \<and>
      clicked_transition ([0, 0] @ [1]) Checked tv1 sc1 = Inr (tv2, sc2) \<and>
      getNodeMask 3 sc2 = 0)"
proof -
  have h: "m_pOsgWidget familyView = Some widget0"
    "itemFromIndex [0, 0] (m_pModel familyView) = Some family_P"
    by (simp_all add: familyView_def)
  have k: "1 < length (rows family_P)"
    "getNode (rows family_P ! 1) \<notin> set (nodes_of_rows (rows (rows family_P ! 1)))"
    "getNode (rows family_P ! 1) = 3"
    by (simp_all add: family_P_def family_C1_def family_C2_def)
  from updateChildren_disables_children [OF h, of family_P True scene0 Unchecked] k
  have "\<exists>tv1 sc1 tv2 sc2 c.
      clicked_transition [0, 0] Unchecked familyView scene0 = Inr (tv1, sc1) \<and>
      itemFromIndex ([0, 0] @ [1]) (m_pModel tv1) = Some c \<and> \<not> isEnabled c \<and>
      clicked_transition ([0, 0] @ [1]) Checked tv1 sc1 = Inr (tv2, sc2) \<and>
      getNodeMask 3 sc2 = 0"
    by (metis CheckState.distinct(3))
  with h k show ?thesis by blast
qed

section \<open>updateChildren stops at an unchecked item\<close>

text \<open>
  Claim C10. \<open>updateChildren\<close> on an item that is not checked returns the rows of the item
  as they were and sets the mask of the item's node to zero. On any item, the items
  strictly below an unchecked item of the subtree are the same before and after (their
  prior masks among the rest), no node outside the walk (the item, and the rows of checked
  items) is changed, and when no node is held by two items of the subtree, the nodes of
  the items strictly below an unchecked item keep their mask.
\<close>

theorem updateChildren_skips_unchecked:
  "(checkState item \<noteq> Checked \<longrightarrow> rows (fst (updateChildren item checked sc)) = rows item) \<and>
   below_unchecked (fst (updateChildren item checked sc)) = below_unchecked item \<and>
   (\<forall>n. n \<notin> set (touched item) \<longrightarrow> nodes (snd (updateChildren item checked sc)) n = nodes sc n) \<and>
   (distinct (nodes_of item) \<longrightarrow>
      (\<forall>d \<in> set (below_unchecked item).
         getNodeMask (getNode d) (snd (updateChildren item checked sc)) = getNodeMask (getNode d) sc)) \<and>
   (checkState item \<noteq> Checked \<longrightarrow>
      getNodeMask (getNode item) (snd (updateChildren item checked sc)) = 0)"
proof -
  have "getNodeMask (getNode d) (snd (updateChildren item checked sc)) = getNodeMask (getNode d) sc"
    if "distinct (nodes_of item)" and "d \<in> set (below_unchecked item)" for d
  proof -
    from that have "getNode d \<notin> set (touched item)"
      using touched_below_unchecked_disjoint(1)[of item] by auto
    then show ?thesis by (simp add: getNodeMask_def updateChildren_frame(1))
  qed
  then show ?thesis
    by (simp add: updateChildren_shape updateChildren_below_unchecked updateChildren_frame(1)
        updateChildren_own_mask)
qed

theorem updateChildren_skips_unchecked_witness:
  "distinct (nodes_of family_P) \<and>
   d3DisplayItem ''G'' ''P::C1::G'' 4 True Checked 7 [] \<in> set (below_unchecked family_P) \<and>
   4 \<notin> set (touched family_P) \<and> checkState family_C1 \<noteq> Checked \<and>
   getNodeMask 4 (snd (updateChildren family_P True scene0)) = getNodeMask 4 scene0 \<and>
   rows (fst (updateChildren family_C1 True scene0)) = rows family_C1"
proof -
  have h: "distinct (nodes_of family_P)"
    "d3DisplayItem ''G'' ''P::C1::G'' 4 True Checked 7 [] \<in> set (below_unchecked family_P)"
    "4 \<notin> set (touched family_P)" "checkState family_C1 \<noteq> Checked"
    by (simp_all add: family_P_def family_C1_def family_C2_def)
  from updateChildren_skips_unchecked [of family_P True scene0] h
  have a: "getNodeMask 4 (snd (updateChildren family_P True scene0)) = getNodeMask 4 scene0"
    by fastforce
  from updateChildren_skips_unchecked [of family_C1 True scene0] h
  have b: "rows (fst (updateChildren family_C1 True scene0)) = rows family_C1"
    by blast
  from h a b show ?thesis by blast
qed

section \<open>No window: the operations return false\<close>

text \<open>
  Claim C6. Whenever \<open>setupMainWindow\<close> returns false inside one of the operations that
  need a window (the five \<open>add\<close> overloads, \<open>track\<close>, \<open>lock\<close>), the operation returns
  false, with no error, in the state \<open>setupMainWindow\<close> left but for \<open>m_haveData\<close>, which is
  false.
\<close>

theorem no_window_returns_false:
  "(setupMainWindow display (di\<lparr>m_haveData := True\<rparr>) = Some (False, di1) \<longrightarrow>
      DisplayInterface_add display name node addToDisplay di sc =
        Some (Inr (False, di1\<lparr>m_haveData := False\<rparr>, sc)) \<and>
      DisplayInterface_add_key display accepted di = Some (Inr (False, di1\<lparr>m_haveData := False\<rparr>)) \<and>
      DisplayInterface_add_char display accepted di = Some (Inr (False, di1\<lparr>m_haveData := False\<rparr>)) \<and>
      DisplayInterface_add_button display accepted di = Some (Inr (False, di1\<lparr>m_haveData := False\<rparr>)) \<and>
      DisplayInterface_add_motion display accepted di = Some (Inr (False, di1\<lparr>m_haveData := False\<rparr>)) \<and>
      track display di = Some (Inr (False, di1\<lparr>m_haveData := False\<rparr>))) \<and>
   (setupMainWindow display di = Some (False, di1) \<longrightarrow>
      lock display di = Some (Inr (False, di1\<lparr>m_haveData := False\<rparr>)))"
  by (simp add: DisplayInterface_add_def DisplayInterface_add_key_def DisplayInterface_add_char_def
      DisplayInterface_add_button_def DisplayInterface_add_motion_def track_def lock_def)

theorem no_window_returns_false_witness:
  "setupMainWindow display_without_window (new_DisplayInterface\<lparr>m_haveData := True\<rparr>) =
     Some (False, new_DisplayInterface\<lparr>m_haveData := True, m_setupComplete := True\<rparr>) \<and>
   setupMainWindow display_without_window new_DisplayInterface =
     Some (False, new_DisplayInterface\<lparr>m_setupComplete := True\<rparr>) \<and>
   track display_without_window new_DisplayInterface =
     Some (Inr (False, new_DisplayInterface\<lparr>m_haveData := True, m_setupComplete := True\<rparr>\<lparr>m_haveData := False\<rparr>)) \<and>
   lock display_without_window new_DisplayInterface =
     Some (Inr (False, new_DisplayInterface\<lparr>m_setupComplete := True\<rparr>\<lparr>m_haveData := False\<rparr>))"
proof -
  have a: "setupMainWindow display_without_window (new_DisplayInterface\<lparr>m_haveData := True\<rparr>) =
     Some (False, new_DisplayInterface\<lparr>m_haveData := True, m_setupComplete := True\<rparr>)"
    and b: "setupMainWindow display_without_window new_DisplayInterface =
     Some (False, new_DisplayInterface\<lparr>m_setupComplete := True\<rparr>)"
    by (simp_all add: setupMainWindow_def display_without_window_def new_DisplayInterface_def)
  from a b
    no_window_returns_false [of display_without_window new_DisplayInterface
      "new_DisplayInterface\<lparr>m_haveData := True, m_setupComplete := True\<rparr>"]
    no_window_returns_false [of display_without_window new_DisplayInterface
      "new_DisplayInterface\<lparr>m_setupComplete := True\<rparr>"]
  show ?thesis by blast
qed

section \<open>try_lock and unlock without a widget\<close>

text \<open>
  Claim C8. While there is no osg widget, \<open>try_lock\<close> and \<open>unlock\<close> return false and leave
  the coordinator as it is: no window, widget or tree view is made, no flag changes, and
  neither call waits (both are total here, and do not go through \<open>setupMainWindow\<close>).
\<close>

theorem try_lock_unlock_without_widget:
  "m_pOsgWidget_DI di = None \<longrightarrow> try_lock di = (False, di) \<and> unlock di = (False, di)"
  by (simp add: try_lock_def unlock_def)

theorem try_lock_unlock_without_widget_witness:
  "m_pOsgWidget_DI new_DisplayInterface = None \<and>
   try_lock new_DisplayInterface = (False, new_DisplayInterface) \<and>
   unlock new_DisplayInterface = (False, new_DisplayInterface)"
proof -
  have "m_pOsgWidget_DI new_DisplayInterface = None"
    by (simp add: new_DisplayInterface_def)
  with try_lock_unlock_without_widget [of new_DisplayInterface] show ?thesis by blast
qed

section \<open>A caller that overtakes the setup\<close>

text \<open>
  Claim C4 says that every caller arriving before the setup is complete unblocks only
  after the window, the osg widget and the tree view have been made. The run below
  breaks it. The display thread parks (4 steps); a first caller's \<open>add\<close> sets
  \<open>m_haveData\<close>, notifies and waits (6 steps); the display thread wakes up and makes the
  window (5 steps); now a second caller's \<open>track\<close> sets \<open>m_haveData\<close>, finds
  \<open>m_pMainWindow\<close> set in \<open>setupMainWindow\<close>, so does not wait, and calls through
  \<open>m_pOsgWidget\<close>, which is still null (4 steps). \<open>m_setupComplete\<close> is false all along.
\<close>

theorem track_overtakes_setup:
  "run (replicate 4 Display @ replicate 6 (Caller 0) @ replicate 5 Display @ replicate 4 (Caller 1))
       (started [Op_add, Op_track]) =
     Some \<lparr>shared = new_DisplayInterface\<lparr>m_haveData := True, m_pMainWindow := Some \<lparr>isVisible = True\<rparr>\<rparr>,
           m_mutex = Some Display, display_at = D_make_widget,
           callers = [(Op_add, C_waiting), (Op_track, C_crashed)], destructor_at = X_idle,
           windows_made = 1, widgets_made = 0, views_made = 0\<rparr>"
  by code_simp

section \<open>Teardown before any operation\<close>

text \<open>
  Claim C7 says that a coordinator destroyed before any operation was called never
  hangs. It can. The destructor sets \<open>m_haveData\<close> and \<open>m_threadShouldRun\<close> and notifies
  without holding \<open>m_mutex\<close>, so it can do all that while the display thread is between
  its test of \<open>m_haveData\<close> and its call of \<open>wait\<close>: the notification reaches nobody, the
  display thread then blocks in \<open>wait\<close> and the destructor in \<open>join\<close>. The first run
  starts in the state the constructor leaves (three steps of the display thread, five
  of the destructor, one of the display thread). The second starts with the display
  thread parked in \<open>wait\<close>, which a spurious wake-up sends back to its test before the
  destructor runs. Both end in the same state, where no thread can take a step.
\<close>

theorem teardown_can_hang:
  "run (replicate 3 Display @ replicate 5 Destructor @ [Display])
       ((started [])\<lparr>destructor_at := X_start\<rparr>) = Some teardown_stuck \<and>
   run_waking ((True, Display) # replicate 2 (False, Display) @ replicate 5 (False, Destructor) @
               [(False, Display)])
       parked_at_teardown = Some teardown_stuck \<and>
   next_states teardown_stuck = [] \<and>
   display_at teardown_stuck = D_waiting \<and> destructor_at teardown_stuck = X_join \<and>
   m_haveData (shared teardown_stuck) \<and> \<not> m_threadShouldRun (shared teardown_stuck)"
  by code_simp

end
